theory Spec2Isabelle
  imports Main "HOL-Library.Word"
begin

unbundle bit_operations_syntax

section \<open>The withdrawal handler of the Acre Ledger application\<close>

text \<open>
  A shallow embedding of \<^verbatim>\<open>src/handler/withdraw.c\<close>. A C array is a function from
  indices to elements (\<open>'a buf\<close>): a read never fails in the model, and every range that
  the code reads or writes is spelled out with its offset and size. Locals that the C
  code leaves uninitialised get their initial contents from the environment, so nothing
  is assumed about them. The collaborators that live outside the file (chunk retrieval,
  keccak and SHA-256, script decoding, key derivation, the signer, the user interface)
  are fields of the environment record.
\<close>

subsection \<open>Bytes, buffers and the C library\<close>

type_synonym byte = "8 word"
type_synonym size_t = "32 word"
type_synonym 'a buf = "nat \<Rightarrow> 'a"

text \<open>\<^verbatim>\<open>p + off\<close>: the buffer seen from offset \<open>off\<close>.\<close>

definition ptr_add :: "'a buf \<Rightarrow> nat \<Rightarrow> 'a buf" where
  "ptr_add p off = (\<lambda>i. p (off + i))"

text \<open>The \<open>n\<close> elements of \<open>p\<close> from offset \<open>off\<close>, in order.\<close>

definition bytes_at :: "'a buf \<Rightarrow> nat \<Rightarrow> nat \<Rightarrow> 'a list" where
  "bytes_at p off n = map p [off ..< off + n]"

text \<open>\<^verbatim>\<open>memset(dst, v, n)\<close> and \<^verbatim>\<open>memcpy(dst + off, src, length src)\<close>.\<close>

definition memset :: "'a buf \<Rightarrow> 'a \<Rightarrow> nat \<Rightarrow> 'a buf" where
  "memset dst v n = (\<lambda>i. if i < n then v else dst i)"

definition memcpy :: "'a buf \<Rightarrow> nat \<Rightarrow> 'a list \<Rightarrow> 'a buf" where
  "memcpy dst off src = (\<lambda>i. if off \<le> i \<and> i < off + length src then src ! (i - off) else dst i)"

text \<open>
  \<^verbatim>\<open>snprintf(dst, size, "%s", s)\<close>: at most \<open>sz - 1\<close> characters and a terminating
  NUL; the bytes after the terminator keep what \<open>dst\<close> held before.
\<close>

definition snprintf :: "char buf \<Rightarrow> nat \<Rightarrow> string \<Rightarrow> char buf" where
  "snprintf dst sz s =
     (if sz = 0 then dst
      else memcpy dst 0 (take (sz - 1) s @ [CHR 0x00]))"

text \<open>The C string held in a buffer of \<open>sz\<close> characters: everything before the first NUL.\<close>

definition c_string :: "char buf \<Rightarrow> nat \<Rightarrow> string" where
  "c_string p sz = takeWhile (\<lambda>c. c \<noteq> CHR 0x00) (bytes_at p 0 sz)"

text \<open>
  Modelled from the spec: \<^verbatim>\<open>read_u16_be\<close> and \<^verbatim>\<open>read_u64_be\<close> of
  \<^verbatim>\<open>common/read.h\<close>, which are not in the source file; unsigned big-endian reads at an
  offset.
\<close>

definition read_u16_be :: "byte buf \<Rightarrow> nat \<Rightarrow> 16 word" where
  "read_u16_be p off = push_bit 8 (ucast (p off)) OR ucast (p (off + 1))"

definition read_u64_be :: "byte buf \<Rightarrow> nat \<Rightarrow> 64 word" where
  "read_u64_be p off =
     foldl (\<lambda>acc b. push_bit 8 acc OR ucast b) 0 (bytes_at p off 8)"

subsection \<open>Constants of the file\<close>

definition DATA_CHUNK_INDEX_1 :: nat where "DATA_CHUNK_INDEX_1 = 5"
definition DATA_CHUNK_INDEX_2 :: nat where "DATA_CHUNK_INDEX_2 = 10"
definition CHUNK_SIZE_IN_BYTES :: nat where "CHUNK_SIZE_IN_BYTES = 64"
definition ADDRESS_SIZE_IN_BYTES :: nat where "ADDRESS_SIZE_IN_BYTES = 20"
definition AMOUNT_SIZE_IN_CHARS :: nat where "AMOUNT_SIZE_IN_CHARS = 50"
definition CHUNK_SECOND_PART :: nat where "CHUNK_SECOND_PART = 32"
definition KECCAK_256_HASH_SIZE :: nat where "KECCAK_256_HASH_SIZE = 32"
definition FIELD_SIZE :: nat where "FIELD_SIZE = 32"
definition MAX_TICKER_LEN :: nat where "MAX_TICKER_LEN = 5"

subsection \<open>Amount formatting (lines 178--203 of the display function)\<close>

definition digit_char :: "nat \<Rightarrow> char" where
  "digit_char d = ''0123456789'' ! d"

function dec_digits :: "nat \<Rightarrow> string" where
  "dec_digits n =
     (if n < 10 then [digit_char n]
      else dec_digits (n div 10) @ [digit_char (n mod 10)])"
  by pat_completeness auto
termination
proof (relation "measure (\<lambda>n. n)")
  show "wf (measure (\<lambda>n. n))" by simp
next
  fix n :: nat
  assume "\<not> n < 10"
  then have "n div 10 < n" by simp
  then show "(n div 10, n) \<in> measure (\<lambda>n. n)" by simp
qed

declare dec_digits.simps [simp del]

text \<open>
  Modelled from the spec: \<^verbatim>\<open>format_fpu64\<close> of \<^verbatim>\<open>common/format.h\<close>, which is not in
  the source file. It renders the full fixed-point decimal string: the integer part, a
  decimal point, and the fractional part on exactly \<open>decimals\<close> digits. It reports
  failure when the string and its terminator do not fit in \<open>dst_len\<close> characters.
\<close>

definition format_fpu64 :: "nat \<Rightarrow> 64 word \<Rightarrow> nat \<Rightarrow> string option" where
  "format_fpu64 dst_len v decimals =
     (let frac = dec_digits (unat v mod 10 ^ decimals);
          s = dec_digits (unat v div 10 ^ decimals) @ ''.''
              @ replicate (decimals - length frac) (CHR ''0'') @ frac
      in if length s < dst_len then Some s else None)"

text \<open>
  The trimming loop of lines 193--200: \<open>i\<close> walks down from the last index while the
  character is \<^verbatim>\<open>'0'\<close>, NUL or \<^verbatim>\<open>'.'\<close>, and stops at index 0.
\<close>

function trim_scan :: "char buf \<Rightarrow> nat \<Rightarrow> nat" where
  "trim_scan b i =
     (if b i = CHR ''0'' \<or> b i = CHR 0x00 \<or> b i = CHR ''.''
      then (if i = 0 then i else trim_scan b (i - 1))
      else i)"
  by pat_completeness auto
termination
  by (relation "measure (\<lambda>(b, i). i)") auto

declare trim_scan.simps [simp del]

text \<open>
  Lines 186--203: the ticker is put in front of the formatted value in the local
  \<^verbatim>\<open>value_with_ticker\<close> (57 characters, not initialised: \<open>stale\<close> is what the stack
  held), and the buffer is cut after the index where the scan stopped.
\<close>

definition value_with_ticker_size :: nat where
  "value_with_ticker_size = AMOUNT_SIZE_IN_CHARS + 1 + MAX_TICKER_LEN + 1"

definition trim_value_with_ticker :: "char buf \<Rightarrow> string \<Rightarrow> char buf" where
  "trim_value_with_ticker stale val =
     (let value_with_ticker = snprintf stale value_with_ticker_size (''stBTC '' @ val);
          value_with_ticker_len = value_with_ticker_size - 1;
          i = trim_scan value_with_ticker value_with_ticker_len
      in if i < value_with_ticker_len
         then value_with_ticker (i + 1 := CHR 0x00)
         else value_with_ticker)"

text \<open>The text that reaches the confirmation screen for a raw amount, if formatting succeeds.\<close>

definition displayed_amount :: "char buf \<Rightarrow> 64 word \<Rightarrow> string option" where
  "displayed_amount stale value_u64 =
     (case format_fpu64 (AMOUNT_SIZE_IN_CHARS + 1) value_u64 18 of
        None \<Rightarrow> None
      | Some val \<Rightarrow>
          Some (c_string (trim_value_with_ticker stale val) value_with_ticker_size))"

subsection \<open>Redeemer script length (lines 211--229)\<close>

text \<open>
  The length field is widened to \<^verbatim>\<open>size_t\<close> (32 bits on the device), capped at 32,
  and \<open>len - 1\<close> is what the script decoders receive: the subtraction is a
  \<^verbatim>\<open>size_t\<close> one and wraps.
\<close>

definition len_redeemer_output_script :: "byte buf \<Rightarrow> size_t" where
  "len_redeemer_output_script data_chunk =
     (let len = (ucast (read_u16_be data_chunk 30) :: size_t)
      in if len > 32 then 32 else len)"

definition script_len_arg :: "byte buf \<Rightarrow> size_t" where
  "script_len_arg data_chunk = len_redeemer_output_script data_chunk - 1"

subsection \<open>Network constants (lines 52--83)\<close>

datatype coin_variant = COIN_VARIANT_ACRE | COIN_VARIANT_ACRE_TESTNET

definition BSM_SIGN_MAGIC :: "byte list" where
  "BSM_SIGN_MAGIC = [0x18] @ map of_char ''Bitcoin Signed Message:'' @ [0x0A]"

fun abi_encoded_chain_id :: "coin_variant \<Rightarrow> byte list" where
  "abi_encoded_chain_id COIN_VARIANT_ACRE =
     [0x00, 0x00, 0x00, 0x00, 0x00, 0x00, 0x00, 0x00, 0x00, 0x00, 0x00, 0x00, 0x00, 0x00, 0x00, 0x00,
      0x00, 0x00, 0x00, 0x00, 0x00, 0x00, 0x00, 0x00, 0x00, 0x00, 0x00, 0x00, 0x00, 0x00, 0x00, 0x01]"
| "abi_encoded_chain_id COIN_VARIANT_ACRE_TESTNET =
     [0x00, 0x00, 0x00, 0x00, 0x00, 0x00, 0x00, 0x00, 0x00, 0x00, 0x00, 0x00, 0x00, 0x00, 0x00, 0x00,
      0x00, 0x00, 0x00, 0x00, 0x00, 0x00, 0x00, 0x00, 0x00, 0x00, 0x00, 0x00, 0x00, 0xaa, 0x36, 0xa7]"

text \<open>The chain identifiers that the comments of lines 63 and 69 name: mainnet 1, Sepolia 11155111.\<close>

fun chain_id :: "coin_variant \<Rightarrow> nat" where
  "chain_id COIN_VARIANT_ACRE = 1"
| "chain_id COIN_VARIANT_ACRE_TESTNET = 11155111"

definition domain_separator_typehash :: "byte list" where
  "domain_separator_typehash =
     [0x47, 0xe7, 0x95, 0x34, 0xa2, 0x45, 0x95, 0x2e, 0x8b, 0x16, 0x89, 0x3a, 0x33, 0x6b, 0x85, 0xa3,
      0xd9, 0xea, 0x9f, 0xa8, 0xc5, 0x73, 0xf3, 0xd8, 0x03, 0xaf, 0xb9, 0x2a, 0x79, 0x46, 0x92, 0x18]"

definition safe_tx_typehash :: "byte list" where
  "safe_tx_typehash =
     [0xbb, 0x83, 0x10, 0xd4, 0x86, 0x36, 0x8d, 0xb6, 0xbd, 0x6f, 0x84, 0x94, 0x02, 0xfd, 0xd7, 0x3a,
      0xd5, 0x3d, 0x31, 0x6b, 0x5a, 0x4b, 0x26, 0x44, 0xad, 0x6e, 0xfe, 0x0f, 0x94, 0x12, 0x86, 0xd8]"

text \<open>The big-endian bytes of a number on \<open>n\<close> bytes, zero-padded on the left.\<close>

definition be_bytes :: "nat \<Rightarrow> nat \<Rightarrow> byte list" where
  "be_bytes n v = bytes_at (\<lambda>i. of_nat (v div 256 ^ (n - 1 - i))) 0 n"

subsection \<open>The environment of one request\<close>

datatype status_word =
  SW_OK | SW_WRONG_DATA_LENGTH | SW_INCORRECT_DATA | SW_DENY | SW_BAD_STATE

text \<open>
  What the handler does to the outside, in order: status words and responses handed to
  the dispatcher, the user-interface calls, the script decoders with the length they
  receive, and the signer with the path and digest it receives.
\<close>

datatype event =
    SEND_SW status_word
  | SEND_RESPONSE "byte list" status_word
  | Ui_post_processing_confirm_withdraw bool
  | Ui_validate_withdraw_data_and_confirm string string
  | Get_script_type size_t
  | Get_script_address size_t
  | Ecdsa_sign "32 word list" "byte list"

text \<open>
  The collaborators, the build configuration and the stale contents of the locals that
  the code reads before writing them.
  \<^item> \<open>call_get_merkle_leaf_element i\<close> is the return value of the retrieval of chunk
    \<open>i\<close> (negative on failure) and the contents of the caller's 64-byte buffer after
    the call;
  \<^item> \<open>keccak256\<close> and \<open>sha256\<close> are the digests of a whole message; the incremental
    interface of the SDK (init, update, final) is modelled by the bytes absorbed so far;
  \<^item> \<open>get_script_address\<close> returns the length (or \<open>-1\<close>) and the address string
    written to the output buffer;
  \<^item> \<open>format_hex\<close> returns whether the call is taken as a success and the string
    written;
  \<^item> \<open>crypto_ecdsa_sign_sha256_hash_with_key\<close> returns the signature length
    (negative on failure), the contents of the signature buffer after the call and the
    \<open>info\<close> word.
\<close>

record env =
  call_get_merkle_leaf_element :: "nat \<Rightarrow> int \<times> byte buf"
  keccak256 :: "byte list \<Rightarrow> 256 word"
  sha256 :: "byte list \<Rightarrow> 256 word"
  crypto_hash_update_varint :: "nat \<Rightarrow> byte list"
  get_script_type :: "byte buf \<Rightarrow> size_t \<Rightarrow> int"
  get_script_address :: "byte buf \<Rightarrow> size_t \<Rightarrow> int \<times> string"
  crypto_get_compressed_pubkey_at_path :: "32 word list \<Rightarrow> byte list option"
  get_address_from_compressed_public_key :: "byte \<Rightarrow> byte list \<Rightarrow> string option"
  ui_validate_withdraw_data_and_confirm :: "string \<Rightarrow> string \<Rightarrow> bool"
  format_hex :: "byte list \<Rightarrow> bool \<times> string"
  crypto_ecdsa_sign_sha256_hash_with_key ::
    "32 word list \<Rightarrow> byte list \<Rightarrow> int \<times> byte buf \<times> 32 word"
  coin :: coin_variant
  HAVE_AUTOAPPROVE_FOR_PERF_TESTS :: bool
  MAX_ADDRESS_LENGTH_STR :: nat
  MAX_BIP32_PATH_STEPS :: nat
  stack_value_with_ticker :: "char buf"
  stack_abi_encoded_tx_fields :: "byte buf"
  stack_tx_hash :: "byte buf"

text \<open>The 32 bytes that a finalised hash context writes to its output buffer.\<close>

definition digest_bytes :: "256 word \<Rightarrow> byte list" where
  "digest_bytes w = bytes_at (\<lambda>i. ucast (drop_bit (8 * (31 - i)) w)) 0 32"

subsection \<open>Streaming hash engine (lines 271--642)\<close>

text \<open>
  Every function below returns, next to its result, the events it emits, in order. A hash
  context is the list of the bytes absorbed since its initialisation. The pointer
  arguments are addresses of locals of the handler and the dispatcher context that the
  handler has checked, so the NULL guards are never taken and are left out.
\<close>

definition add_leading_zeroes :: "byte buf \<Rightarrow> nat \<Rightarrow> byte list \<Rightarrow> byte buf" where
  "add_leading_zeroes dest_buffer dest_size src =
     (if dest_size < length src then dest_buffer
      else memcpy (memset dest_buffer 0 dest_size) (dest_size - length src) src)"

definition fetch_and_add_chunk_to_hash ::
  "env \<Rightarrow> byte list \<Rightarrow> nat \<Rightarrow> nat \<Rightarrow> nat \<Rightarrow> byte list \<times> event list" where
  "fetch_and_add_chunk_to_hash e hash_context chunk_index chunk_offset chunk_data_size =
     (case call_get_merkle_leaf_element e chunk_index of (current_chunk_len, data_chunk) \<Rightarrow>
        if current_chunk_len < 0
        then (hash_context,
              [SEND_SW SW_WRONG_DATA_LENGTH, Ui_post_processing_confirm_withdraw False])
        else (hash_context @ bytes_at data_chunk chunk_offset chunk_data_size, []))"

text \<open>
  The local \<^verbatim>\<open>input_buffer\<close> is written on all the bytes that are copied out of it,
  so its initial contents are never observed; it starts as zeroes here.
\<close>

definition fetch_and_add_chunk_to_buffer ::
  "env \<Rightarrow> nat \<Rightarrow> nat \<Rightarrow> nat \<Rightarrow> byte buf \<Rightarrow> nat \<Rightarrow> byte buf \<times> event list" where
  "fetch_and_add_chunk_to_buffer e chunk_index chunk_offset chunk_data_size
       output_buffer output_buffer_offset =
     (case call_get_merkle_leaf_element e chunk_index of (current_chunk_len, data_chunk) \<Rightarrow>
        if current_chunk_len < 0
        then (output_buffer,
              [SEND_SW SW_WRONG_DATA_LENGTH, Ui_post_processing_confirm_withdraw False])
        else
          (let src = bytes_at data_chunk chunk_offset chunk_data_size;
               input_buffer_size = (if chunk_data_size < 32 then 32 else chunk_data_size);
               input_buffer =
                 (if chunk_data_size < 32 then add_leading_zeroes (\<lambda>_. 0) 32 src
                  else memcpy (\<lambda>_. 0) 0 src)
           in (memcpy output_buffer output_buffer_offset (bytes_at input_buffer 0 input_buffer_size),
               [])))"

text \<open>The loop of lines 428--433, from index \<open>i\<close>.\<close>

function hash_tx_data_loop ::
  "env \<Rightarrow> nat \<Rightarrow> nat \<Rightarrow> byte list \<Rightarrow> byte list \<times> event list" where
  "hash_tx_data_loop e n_chunks i hash_context =
     (if i < n_chunks
      then
        (let low = fetch_and_add_chunk_to_hash e hash_context i 0 32;
             high = fetch_and_add_chunk_to_hash e (fst low) i 32 32;
             rest = hash_tx_data_loop e n_chunks (Suc i) (fst high)
         in (fst rest, snd low @ snd high @ snd rest))
      else (hash_context, []))"
  by pat_completeness auto
termination
  by (relation "measure (\<lambda>(e, n_chunks, i, hash_context). n_chunks - i)") auto

declare hash_tx_data_loop.simps [simp del]

text \<open>
  \<open>hash_context\<close> is the context that the caller has initialised. The result is the
  32-byte output buffer.
\<close>

definition fetch_and_hash_tx_data ::
  "env \<Rightarrow> nat \<Rightarrow> byte list \<Rightarrow> byte list \<times> event list" where
  "fetch_and_hash_tx_data e n_chunks hash_context =
     (let selector = fetch_and_add_chunk_to_hash e hash_context 4 0 4;
          rest = hash_tx_data_loop e n_chunks 5 (fst selector)
      in (digest_bytes (keccak256 e (fst rest)), snd selector @ snd rest))"

definition fetch_and_abi_encode_tx_fields ::
  "env \<Rightarrow> byte list \<Rightarrow> byte buf \<Rightarrow> nat \<Rightarrow> bool \<times> byte buf \<times> event list" where
  "fetch_and_abi_encode_tx_fields e keccak_of_tx_data output_buffer output_buffer_size =
     (if output_buffer_size < FIELD_SIZE * 11
      then (False, output_buffer, [SEND_SW SW_WRONG_DATA_LENGTH])
      else
        (let b0 = memcpy output_buffer 0 (take 32 safe_tx_typehash);
             f1 = fetch_and_add_chunk_to_buffer e 0 0 ADDRESS_SIZE_IN_BYTES b0 (1 * FIELD_SIZE);
             f2 = fetch_and_add_chunk_to_buffer e 1 0 32 (fst f1) (2 * FIELD_SIZE);
             b3 = memcpy (fst f2) (3 * FIELD_SIZE) (take 32 keccak_of_tx_data);
             f4 = fetch_and_add_chunk_to_buffer e 3 0 1 b3 (4 * FIELD_SIZE);
             f5 = fetch_and_add_chunk_to_buffer e 1 32 32 (fst f4) (5 * FIELD_SIZE);
             f6 = fetch_and_add_chunk_to_buffer e 2 1 32 (fst f5) (6 * FIELD_SIZE);
             f7 = fetch_and_add_chunk_to_buffer e 2 32 32 (fst f6) (7 * FIELD_SIZE);
             f8 = fetch_and_add_chunk_to_buffer e 0 20 20 (fst f7) (8 * FIELD_SIZE);
             f9 = fetch_and_add_chunk_to_buffer e 0 40 20 (fst f8) (9 * FIELD_SIZE);
             f10 = fetch_and_add_chunk_to_buffer e 3 0 32 (fst f9) (10 * FIELD_SIZE)
         in (True, fst f10,
             snd f1 @ snd f2 @ snd f4 @ snd f5 @ snd f6 @ snd f7 @ snd f8 @ snd f9 @ snd f10)))"

definition compute_domain_separator_hash :: "env \<Rightarrow> byte list \<times> event list" where
  "compute_domain_separator_hash e =
     (let hash_context = [] @ domain_separator_typehash;
          hash_context = hash_context @ abi_encoded_chain_id (coin e);
          contract = fetch_and_add_chunk_to_hash e hash_context 7 0 32
      in (digest_bytes (keccak256 e (fst contract)), snd contract))"

text \<open>
  Lines 625--631: the array of \<open>2 + 32 * 2\<close> bytes, initialised with the two prefix
  bytes (the rest zero) and filled with the two hashes.
\<close>

definition abi_encode_packed :: "byte list \<Rightarrow> byte list \<Rightarrow> byte list" where
  "abi_encode_packed domain_separator_hash keccak_of_abi_encoded_tx_fields =
     bytes_at
       (memcpy
          (memcpy (memcpy (\<lambda>_. 0) 0 [0x19, 0x01]) 2
             (take KECCAK_256_HASH_SIZE domain_separator_hash))
          (2 + KECCAK_256_HASH_SIZE)
          (take KECCAK_256_HASH_SIZE keccak_of_abi_encoded_tx_fields))
       0 (2 + KECCAK_256_HASH_SIZE * 2)"

text \<open>
  \<open>output_buffer\<close> is the caller's 32-byte array; it is left as it was when the field
  encoding reports a failure. The local \<^verbatim>\<open>abi_encoded_tx_fields\<close> is not initialised:
  it starts with what the stack held.
\<close>

definition compute_tx_hash :: "env \<Rightarrow> nat \<Rightarrow> byte buf \<Rightarrow> byte buf \<times> event list" where
  "compute_tx_hash e n_chunks output_buffer =
     (let payload = fetch_and_hash_tx_data e n_chunks [];
          keccak_of_tx_data = fst payload
      in case fetch_and_abi_encode_tx_fields e keccak_of_tx_data
                (stack_abi_encoded_tx_fields e) (FIELD_SIZE * 11) of
           (ok, abi_encoded_tx_fields, ev_fields) \<Rightarrow>
             if \<not> ok then (output_buffer, snd payload @ ev_fields)
             else
               (let keccak_of_abi_encoded_tx_fields =
                      digest_bytes (keccak256 e (bytes_at abi_encoded_tx_fields 0 (FIELD_SIZE * 11)));
                    separator = compute_domain_separator_hash e;
                    domain_separator_hash = fst separator
                in (memcpy output_buffer 0
                      (digest_bytes
                         (keccak256 e
                            (abi_encode_packed domain_separator_hash
                               keccak_of_abi_encoded_tx_fields))),
                    snd payload @ ev_fields @ snd separator)))"

subsection \<open>Address check and confirmation (lines 100--257)\<close>

text \<open>
  \<open>address_to_check_len\<close> and \<open>address_type\<close> arrive as \<^verbatim>\<open>uint8_t\<close>. The path is
  the list of the \<open>bip32_path_len\<close> segments read from the request.
\<close>

definition check_address :: "env \<Rightarrow> 32 word list \<Rightarrow> string \<Rightarrow> byte \<Rightarrow> byte \<Rightarrow> bool" where
  "check_address e bip32_path address_to_check address_to_check_len address_type =
     (if unat address_to_check_len > MAX_ADDRESS_LENGTH_STR e then False
      else if unat address_to_check_len < 1 then False
      else case crypto_get_compressed_pubkey_at_path e bip32_path of
             None \<Rightarrow> False
           | Some compressed_public_key \<Rightarrow>
               (case get_address_from_compressed_public_key e address_type compressed_public_key of
                  None \<Rightarrow> False
                | Some address_recovered \<Rightarrow> address_recovered = address_to_check))"

text \<open>
  The return values of the two chunk retrievals are not looked at (lines 170 and 205):
  the buffer is read whatever they are.
\<close>

definition display_data_content_and_confirm ::
  "env \<Rightarrow> 32 word list \<Rightarrow> bool \<times> event list" where
  "display_data_content_and_confirm e bip32_path =
     (let data_chunk = snd (call_get_merkle_leaf_element e DATA_CHUNK_INDEX_1);
          value_u64 = read_u64_be data_chunk (CHUNK_SECOND_PART + 24)
      in case format_fpu64 (AMOUNT_SIZE_IN_CHARS + 1) value_u64 18 of
           None \<Rightarrow> (False, [])
         | Some val \<Rightarrow>
             (let value_with_ticker = trim_value_with_ticker (stack_value_with_ticker e) val;
                  data_chunk = snd (call_get_merkle_leaf_element e DATA_CHUNK_INDEX_2);
                  offset_output_script = CHUNK_SECOND_PART + 1;
                  address_type =
                    get_script_type e (ptr_add data_chunk offset_output_script)
                      (script_len_arg data_chunk);
                  (redeemer_address_len, redeemer_address) =
                    get_script_address e (ptr_add data_chunk offset_output_script)
                      (script_len_arg data_chunk);
                  ev = [Get_script_type (script_len_arg data_chunk),
                        Get_script_address (script_len_arg data_chunk)]
              in if address_type = - 1 \<or> redeemer_address_len = - 1
                 then (False,
                       ev @ [SEND_SW SW_INCORRECT_DATA, Ui_post_processing_confirm_withdraw False])
                 else if \<not> check_address e bip32_path redeemer_address
                            (word_of_int redeemer_address_len) (word_of_int address_type)
                 then (False,
                       ev @ [SEND_SW SW_INCORRECT_DATA, Ui_post_processing_confirm_withdraw False])
                 else
                   (let shown = c_string value_with_ticker value_with_ticker_size
                    in (ui_validate_withdraw_data_and_confirm e shown redeemer_address,
                        ev @ [Ui_validate_withdraw_data_and_confirm shown redeemer_address]))))"

subsection \<open>Signer and encoder (lines 658--827)\<close>

definition CX_ECCINFO_PARITY_ODD :: "32 word" where
  "CX_ECCINFO_PARITY_ODD = 1"

text \<open>
  Lines 663--674: the Bitcoin-message digest of the hexadecimal string, the SHA-256 of the
  SHA-256 of the magic prefix, the length as a variable-length integer and the string.
\<close>

definition bsm_digest :: "env \<Rightarrow> string \<Rightarrow> byte list" where
  "bsm_digest e tx_hash =
     (let tx_hash_length = length tx_hash;
          bsm_digest_context =
            (BSM_SIGN_MAGIC @ crypto_hash_update_varint e tx_hash_length) @ map of_char tx_hash;
          digest = digest_bytes (sha256 e bsm_digest_context)
      in digest_bytes (sha256 e digest))"

text \<open>
  The result is the returned word (\<open>-1\<close> converted to \<^verbatim>\<open>uint32_t\<close> on failure), the
  contents of the signature buffer and the events.
\<close>

definition sign_tx_hash ::
  "env \<Rightarrow> 32 word list \<Rightarrow> string \<Rightarrow> 32 word \<times> byte buf \<times> event list" where
  "sign_tx_hash e bip32_path tx_hash =
     (case crypto_ecdsa_sign_sha256_hash_with_key e bip32_path (bsm_digest e tx_hash) of
        (sig_len, sig, info) \<Rightarrow>
          if sig_len < 0
          then (- 1, sig,
                [Ecdsa_sign bip32_path (bsm_digest e tx_hash), SEND_SW SW_BAD_STATE,
                 Ui_post_processing_confirm_withdraw False])
          else (info, sig, [Ecdsa_sign bip32_path (bsm_digest e tx_hash)]))"

text \<open>
  The two loops of lines 815--820: \<open>for (i = len - 1; i >= 0; --i) result[dst + i] = sig[src + i]\<close>.
  The first argument is the number of iterations left, so the index written is one less.
\<close>

primrec copy_backwards :: "nat \<Rightarrow> nat \<Rightarrow> nat \<Rightarrow> byte buf \<Rightarrow> byte buf \<Rightarrow> byte buf" where
  "copy_backwards 0 dst src sig result = result"
| "copy_backwards (Suc i) dst src sig result =
     copy_backwards i dst src sig (result (dst + i := sig (src + i)))"

definition r_length :: "byte buf \<Rightarrow> nat" where
  "r_length sig = unat (sig 3)"

definition s_length :: "byte buf \<Rightarrow> nat" where
  "s_length sig = unat (sig (4 + r_length sig + 1))"

text \<open>Lines 797--821, once both lengths have passed the test of line 804.\<close>

definition encode_result :: "byte buf \<Rightarrow> 32 word \<Rightarrow> byte list" where
  "encode_result sig info =
     (let result = memset (\<lambda>_. 0) 0 65;
          result = copy_backwards (s_length sig) (1 + 32 + 32 - s_length sig)
                     (4 + r_length sig + 2) sig result;
          result = copy_backwards (r_length sig) (1 + 32 - r_length sig) 4 sig result;
          result = result (0 := 27 + 4 + (if info AND CX_ECCINFO_PARITY_ODD \<noteq> 0 then 1 else 0))
      in bytes_at result 0 65)"

text \<open>
  Lines 791--827 of the handler: the signature is requested and the answer is built. The
  word that \<open>sign_tx_hash\<close> returns is used as \<open>info\<close> whatever it is.
\<close>

definition sign_and_respond :: "env \<Rightarrow> 32 word list \<Rightarrow> string \<Rightarrow> event list" where
  "sign_and_respond e bip32_path tx_hash_str =
     (case sign_tx_hash e bip32_path tx_hash_str of (info, sig, ev) \<Rightarrow>
        if r_length sig > 33 \<or> s_length sig > 33
        then ev @ [SEND_SW SW_BAD_STATE, Ui_post_processing_confirm_withdraw False]
        else ev @ [SEND_RESPONSE (encode_result sig info) SW_OK,
                   Ui_post_processing_confirm_withdraw True])"

subsection \<open>Request orchestrator (lines 726--827)\<close>

text \<open>
  The four reads of lines 739--742 come from \<^verbatim>\<open>boilerplate/io.h\<close> and
  \<^verbatim>\<open>common/bip32.h\<close>; their outcome is the input of the model: \<open>None\<close> when one of
  them fails, the values read otherwise. The dispatcher context is the one the dispatcher
  passes, so the NULL test of line 729 is not taken. The calls whose results are not used
  (\<^verbatim>\<open>bip32_path_format\<close>, \<^verbatim>\<open>reset_streaming_index\<close>, \<^verbatim>\<open>ui_pre_processing_message\<close>,
  the debug output) are left out, and the hash primitives of the SDK are taken not to fail.
\<close>

record request =
  bip32_path_len :: byte
  bip32_path :: "32 word list"
  n_chunks :: "64 word"
  data_merkle_root :: "byte list"

text \<open>\<^verbatim>\<open>n_chunks\<close> is a \<^verbatim>\<open>uint64_t\<close> that the callees receive as a \<^verbatim>\<open>size_t\<close>.\<close>

definition size_t_of_u64 :: "64 word \<Rightarrow> nat" where
  "size_t_of_u64 n = unat (ucast n :: size_t)"

text \<open>
  Lines 777--827, after the confirmation: the hash is computed, rendered in hexadecimal
  and signed.
\<close>

definition hash_and_sign :: "env \<Rightarrow> request \<Rightarrow> event list" where
  "hash_and_sign e r =
     (case compute_tx_hash e (size_t_of_u64 (n_chunks r)) (stack_tx_hash e) of
        (tx_hash, ev) \<Rightarrow>
          (case format_hex e (bytes_at tx_hash 0 KECCAK_256_HASH_SIZE) of
             (ok, tx_hash_str) \<Rightarrow>
               if \<not> ok
               then ev @ [SEND_SW SW_BAD_STATE, Ui_post_processing_confirm_withdraw False]
               else ev @ sign_and_respond e (bip32_path r) tx_hash_str))"

definition handler_withdraw :: "env \<Rightarrow> request option \<Rightarrow> event list" where
  "handler_withdraw e req =
     (case req of
        None \<Rightarrow> [SEND_SW SW_WRONG_DATA_LENGTH, Ui_post_processing_confirm_withdraw False]
      | Some r \<Rightarrow>
          if unat (bip32_path_len r) > MAX_BIP32_PATH_STEPS e
          then [SEND_SW SW_INCORRECT_DATA, Ui_post_processing_confirm_withdraw False]
          else if HAVE_AUTOAPPROVE_FOR_PERF_TESTS e then hash_and_sign e r
          else
            (case display_data_content_and_confirm e (bip32_path r) of
               (confirmed, ev) \<Rightarrow>
                 if \<not> confirmed
                 then ev @ [SEND_SW SW_DENY, Ui_post_processing_confirm_withdraw False]
                 else ev @ hash_and_sign e r))"

text \<open>
  The spec's words for the encodings: a field zero-padded on the left to a 32-byte word,
  and a signature component right-aligned on 32 bytes, its leading pad byte dropped when
  it has 33 bytes.
\<close>

definition left_pad32 :: "byte list \<Rightarrow> byte list" where
  "left_pad32 xs = replicate (32 - length xs) 0 @ xs"

definition right_align32 :: "byte list \<Rightarrow> byte list" where
  "right_align32 xs = replicate (32 - length xs) 0 @ drop (length xs - 32) xs"

subsection \<open>Example requests\<close>

text \<open>
  A request for the path m/84'/0'/0'/0/0 over eleven chunks. Chunk 5 carries the amount
  1000000000000000000 in its last eight bytes, chunk 10 the script length 23; the other
  bytes are zero. The digests are stand-ins (the length of the message), the signer
  returns a DER signature whose first component has 33 bytes (a leading zero and 32
  bytes 0x91) and whose second component has 32 bytes 0x22.
\<close>

definition example_chunk :: "nat \<Rightarrow> byte buf" where
  "example_chunk i =
     (\<lambda>j. if i = 5 \<and> 56 \<le> j \<and> j < 64
          then [0x0D, 0xE0, 0xB6, 0xB3, 0xA7, 0x64, 0x00, 0x00] ! (j - 56)
          else if i = 10 \<and> j = 31 then 0x17
          else if i = 10 \<and> j = 32 then 0x16
          else 0)"

definition length_hash :: "byte list \<Rightarrow> 256 word" where
  "length_hash m = of_nat (length m)"

definition hex_digit :: "nat \<Rightarrow> char" where
  "hex_digit d = ''0123456789abcdef'' ! d"

definition lowercase_hex :: "byte list \<Rightarrow> string" where
  "lowercase_hex bs = concat (map (\<lambda>b. [hex_digit (unat b div 16), hex_digit (unat b mod 16)]) bs)"

definition example_sig :: "byte buf" where
  "example_sig =
     (\<lambda>j. if j = 0 then 0x30 else if j = 1 then 0x45
          else if j = 2 \<or> j = 37 then 0x02
          else if j = 3 then 0x21
          else if j = 4 then 0x00
          else if 5 \<le> j \<and> j < 37 then 0x91
          else if j = 38 then 0x20
          else if 39 \<le> j \<and> j < 71 then 0x22
          else 0)"

definition example_env :: env where
  "example_env =
     \<lparr> call_get_merkle_leaf_element = (\<lambda>i. (64, example_chunk i)),
       keccak256 = length_hash,
       sha256 = length_hash,
       crypto_hash_update_varint = (\<lambda>n. [of_nat n]),
       get_script_type = (\<lambda>script len. 3),
       get_script_address = (\<lambda>script len. (11, ''bc1qexample'')),
       crypto_get_compressed_pubkey_at_path = (\<lambda>path. Some (replicate 33 0x02)),
       get_address_from_compressed_public_key = (\<lambda>t k. Some ''bc1qexample''),
       ui_validate_withdraw_data_and_confirm = (\<lambda>amount address. True),
       format_hex = (\<lambda>bs. (True, lowercase_hex bs)),
       crypto_ecdsa_sign_sha256_hash_with_key = (\<lambda>path digest. (71, example_sig, 1)),
       coin = COIN_VARIANT_ACRE,
       HAVE_AUTOAPPROVE_FOR_PERF_TESTS = False,
       MAX_ADDRESS_LENGTH_STR = 74,
       MAX_BIP32_PATH_STEPS = 8,
       stack_value_with_ticker = (\<lambda>_. CHR 0x00),
       stack_abi_encoded_tx_fields = (\<lambda>_. 0),
       stack_tx_hash = (\<lambda>_. 0) \<rparr>"

definition example_request :: request where
  "example_request =
     \<lparr> bip32_path_len = 5,
       bip32_path = [0x80000054, 0x80000000, 0x80000000, 0, 0],
       n_chunks = 11,
       data_merkle_root = replicate 32 0 \<rparr>"

text \<open>The same request when the signer fails and leaves the signature buffer zeroed.\<close>

definition env_signer_fails :: env where
  "env_signer_fails =
     example_env \<lparr> crypto_ecdsa_sign_sha256_hash_with_key := (\<lambda>path digest. (- 1, (\<lambda>_. 0), 0)) \<rparr>"

text \<open>The same request when the retrieval of chunk 7 fails.\<close>

definition env_chunk_7_fails :: env where
  "env_chunk_7_fails =
     example_env \<lparr> call_get_merkle_leaf_element :=
       (\<lambda>i. if i = 7 then (- 1, (\<lambda>_. 0)) else (64, example_chunk i)) \<rparr>"

text \<open>The same request when the length field of chunk 10 is zero.\<close>

definition env_script_length_0 :: env where
  "env_script_length_0 =
     example_env \<lparr> call_get_merkle_leaf_element :=
       (\<lambda>i. if i = 10 then (64, (\<lambda>_. 0)) else (64, example_chunk i)) \<rparr>"


text \<open>The same request when the signer returns a first component of 34 bytes.\<close>

definition env_long_component :: env where
  "env_long_component =
     example_env \<lparr> crypto_ecdsa_sign_sha256_hash_with_key :=
       (\<lambda>path digest. (72, (\<lambda>j. if j = 3 then 0x22 else 0), 0)) \<rparr>"

section \<open>Properties\<close>

lemmas withdraw_constants =
  DATA_CHUNK_INDEX_1_def DATA_CHUNK_INDEX_2_def CHUNK_SIZE_IN_BYTES_def
  ADDRESS_SIZE_IN_BYTES_def AMOUNT_SIZE_IN_CHARS_def CHUNK_SECOND_PART_def
  KECCAK_256_HASH_SIZE_def FIELD_SIZE_def MAX_TICKER_LEN_def value_with_ticker_size_def

subsection \<open>Evaluation rules\<close>

lemma bytes_at_0 [simp]: "bytes_at p off 0 = []"
  by (simp add: bytes_at_def)

lemma bytes_at_Suc: "bytes_at p off (Suc n) = p off # bytes_at p (Suc off) n"
proof -
  have "[off ..< off + Suc n] = off # [Suc off ..< off + Suc n]"
    by (rule upt_conv_Cons) simp
  moreover have "off + Suc n = Suc off + n" by simp
  ultimately show ?thesis
    unfolding bytes_at_def by (simp only: list.map)
qed

lemma bytes_at_numeral:
  "bytes_at p off (numeral k) = p off # bytes_at p (Suc off) (pred_numeral k)"
  by (simp add: numeral_eq_Suc bytes_at_Suc)

lemma length_bytes_at [simp]: "length (bytes_at p off n) = n"
  by (simp add: bytes_at_def)

lemma nth_bytes_at [simp]: "i < n \<Longrightarrow> bytes_at p off n ! i = p (off + i)"
  by (simp add: bytes_at_def)

lemma replicate_numeral: "replicate (numeral k) x = x # replicate (pred_numeral k) x"
  by (simp add: numeral_eq_Suc)

lemma dec_digits_small: "n < 10 \<Longrightarrow> dec_digits n = [digit_char n]"
  by (subst dec_digits.simps) simp

lemma dec_digits_large:
  "10 \<le> n \<Longrightarrow> dec_digits n = dec_digits (n div 10) @ [digit_char (n mod 10)]"
  by (subst dec_digits.simps) simp

lemmas format_eval = format_fpu64_def dec_digits_small dec_digits_large digit_char_def
  replicate_numeral

lemma trim_scan_stop:
  "\<not> (b i = CHR ''0'' \<or> b i = CHR 0x00 \<or> b i = CHR ''.'') \<Longrightarrow> trim_scan b i = i"
  by (subst trim_scan.simps) simp

lemma trim_scan_step:
  "b i = CHR ''0'' \<or> b i = CHR 0x00 \<or> b i = CHR ''.'' \<Longrightarrow>
   trim_scan b i = (if i = 0 then i else trim_scan b (i - 1))"
  by (subst trim_scan.simps) simp

subsection \<open>Formatting\<close>

lemma dec_digits_length: "n < 10 ^ k \<Longrightarrow> 0 < k \<Longrightarrow> length (dec_digits n) \<le> k"
proof (induction n arbitrary: k rule: dec_digits.induct)
  case (1 n)
  show ?case
  proof (cases "n < 10")
    case True
    with "1.prems" show ?thesis by (simp add: dec_digits_small)
  next
    case False
    then have k1: "1 < k"
      using "1.prems" by (cases "k = 1") auto
    then obtain k' where k': "k = Suc k'" "0 < k'"
      by (cases k) auto
    have "n div 10 < 10 ^ k'"
      using "1.prems"(1) k'(1) by (simp add: less_mult_imp_div_less)
    then have "length (dec_digits (n div 10)) \<le> k'"
      using "1.IH" [OF False _ k'(2)] by simp
    with False k' show ?thesis by (simp add: dec_digits_large)
  qed
qed

lemma format_fpu64_fits: "\<exists>val. format_fpu64 (AMOUNT_SIZE_IN_CHARS + 1) v 18 = Some val"
proof -
  have frac: "length (dec_digits (unat v mod 10 ^ 18)) \<le> 18"
    by (rule dec_digits_length) simp_all
  have "unat v < 2 ^ 64"
    using unsigned_less [of v] by simp
  then have "unat v div 10 ^ 18 < 10 ^ 2"
    by (simp add: less_mult_imp_div_less)
  then have "length (dec_digits (unat v div 10 ^ 18)) \<le> 2"
    by (rule dec_digits_length) simp
  with frac show ?thesis
    by (simp add: format_fpu64_def Let_def AMOUNT_SIZE_IN_CHARS_def)
qed

lemma format_ten: "format_fpu64 51 10000000000000000000 18 = Some ''10.000000000000000000''"
  by (simp add: format_eval)

lemma format_one: "format_fpu64 51 1000000000000000000 18 = Some ''1.000000000000000000''"
  by (simp add: format_eval)

lemma format_zero: "format_fpu64 51 0 18 = Some ''0.000000000000000000''"
  by (simp add: format_eval)

subsection \<open>The trimming loop\<close>

lemma trim_scan_down:
  "k \<le> i \<Longrightarrow> \<not> (b k = CHR ''0'' \<or> b k = CHR 0x00 \<or> b k = CHR ''.'') \<Longrightarrow>
   (\<And>j. k < j \<Longrightarrow> j \<le> i \<Longrightarrow> b j = CHR ''0'' \<or> b j = CHR 0x00 \<or> b j = CHR ''.'') \<Longrightarrow>
   trim_scan b i = k"
proof (induction i)
  case 0
  then show ?case by (simp add: trim_scan_stop)
next
  case (Suc i)
  show ?case
  proof (cases "k = Suc i")
    case True
    with Suc.prems show ?thesis by (simp add: trim_scan_stop)
  next
    case False
    with Suc.prems have le: "k \<le> i" by simp
    have here: "b (Suc i) = CHR ''0'' \<or> b (Suc i) = CHR 0x00 \<or> b (Suc i) = CHR ''.''"
      using Suc.prems(3) [of "Suc i"] False Suc.prems(1) by simp
    have "trim_scan b i = k"
      using le Suc.prems(2) Suc.prems(3) by (intro Suc.IH) simp_all
    with here show ?thesis by (simp add: trim_scan_step)
  qed
qed

lemma nth_in_set_drop: "k \<le> j \<Longrightarrow> j < length xs \<Longrightarrow> xs ! j \<in> set (drop k xs)"
proof -
  assume a: "k \<le> j" "j < length xs"
  then have "drop k xs ! (j - k) = xs ! j" by simp
  moreover have "j - k < length (drop k xs)" using a by simp
  ultimately show ?thesis by (metis nth_mem)
qed

lemma bytes_at_append: "bytes_at p off (m + n) = bytes_at p off m @ bytes_at p (off + m) n"
proof -
  have "[off ..< off + (m + n)] = [off ..< off + m] @ [off + m ..< off + m + n]"
    using upt_add_eq_append [of off "off + m" n] by (simp add: add.assoc)
  then show ?thesis by (simp add: bytes_at_def)
qed

text \<open>
  Where the scan stops and what is shown: when the character at index \<open>k\<close> of the
  text is the last one that is not \<open>0\<close>, \<open>.\<close> or NUL, and the stack bytes after the
  terminator are all of these three, the text is cut after index \<open>k\<close>.
\<close>

lemma trim_value_with_ticker_cut:
  assumes s: "s = ''stBTC '' @ val" and len: "length s \<le> 56" and k: "k < length s"
    and stop: "s ! k \<notin> {CHR ''0'', CHR 0x00, CHR ''.''}"
    and rest: "set (drop (Suc k) s) \<subseteq> {CHR ''0'', CHR 0x00, CHR ''.''}"
    and stale: "\<And>j. length s < j \<Longrightarrow> j \<le> 56 \<Longrightarrow>
      stale j = CHR ''0'' \<or> stale j = CHR 0x00 \<or> stale j = CHR ''.''"
    and nonul: "CHR 0x00 \<notin> set (take (Suc k) s)"
  shows "c_string (trim_value_with_ticker stale val) value_with_ticker_size = take (Suc k) s"
proof -
  define b where "b = snprintf stale 57 s"
  have b_eq: "b = memcpy stale 0 (s @ [CHR 0x00])"
    using len by (simp add: b_def snprintf_def)
  have b_low: "b j = s ! j" if "j < length s" for j
    using that by (simp add: b_eq memcpy_def nth_append)
  have b_nul: "b (length s) = CHR 0x00"
    by (simp add: b_eq memcpy_def nth_append)
  have b_high: "b j = stale j" if "length s < j" for j
    using that by (simp add: b_eq memcpy_def)
  have scan: "trim_scan b 56 = k"
  proof (rule trim_scan_down)
    show "k \<le> 56" using k len by simp
    show "\<not> (b k = CHR ''0'' \<or> b k = CHR 0x00 \<or> b k = CHR ''.'')"
      using stop k by (simp add: b_low)
    fix j :: nat
    assume j: "k < j" "j \<le> 56"
    consider "j < length s" | "j = length s" | "length s < j" by linarith
    then show "b j = CHR ''0'' \<or> b j = CHR 0x00 \<or> b j = CHR ''.''"
    proof cases
      case 1
      then have "s ! j \<in> set (drop (Suc k) s)"
        using j by (intro nth_in_set_drop) simp_all
      with rest 1 show ?thesis by (auto simp: b_low)
    next
      case 2
      then show ?thesis by (simp add: b_nul)
    next
      case 3
      then show ?thesis using stale [of j] j by (simp add: b_high)
    qed
  qed
  have tv: "trim_value_with_ticker stale val = b (Suc k := CHR 0x00)"
    unfolding trim_value_with_ticker_def Let_def
    using scan k len by (simp add: withdraw_constants b_def s)
  have parts: "bytes_at (b (Suc k := CHR 0x00)) 0 57 =
      bytes_at (b (Suc k := CHR 0x00)) 0 (Suc k) @ bytes_at (b (Suc k := CHR 0x00)) (Suc k) (56 - k)"
    using bytes_at_append [of "b (Suc k := CHR 0x00)" 0 "Suc k" "56 - k"] k len by simp
  have front: "bytes_at (b (Suc k := CHR 0x00)) 0 (Suc k) = take (Suc k) s"
    using k by (intro nth_equalityI) (simp_all add: b_low)
  have behind: "bytes_at (b (Suc k := CHR 0x00)) (Suc k) (56 - k) =
      CHR 0x00 # bytes_at (b (Suc k := CHR 0x00)) (Suc (Suc k)) (55 - k)"
  proof -
    have "56 - k = Suc (55 - k)" using k len by simp
    then show ?thesis by (simp add: bytes_at_Suc)
  qed
  have "takeWhile (\<lambda>c. c \<noteq> CHR 0x00)
          (take (Suc k) s @ CHR 0x00 # bytes_at (b (Suc k := CHR 0x00)) (Suc (Suc k)) (55 - k))
        = take (Suc k) s @ takeWhile (\<lambda>c. c \<noteq> CHR 0x00)
            (CHR 0x00 # bytes_at (b (Suc k := CHR 0x00)) (Suc (Suc k)) (55 - k))"
    using nonul by (intro takeWhile_append2) auto
  then have "c_string (b (Suc k := CHR 0x00)) 57 = take (Suc k) s"
    unfolding c_string_def parts front behind by simp
  then show ?thesis by (simp add: tv withdraw_constants)
qed

text \<open>
  Claim C9. The raw amount 10000000000000000000 (10 with 18 decimals) is rendered in full as
  \<open>10.000000000000000000\<close>, and the trimming loop then strips the zero of the integer
  part too: the confirmation text is \<open>stBTC 1\<close>, the text of the amount 1. The scan
  starts at the last index of the array, so this is the case whenever the stack bytes
  after the terminator (indices 28 to 56) are NUL, \<open>0\<close> or \<open>.\<close>, as on a zeroed stack.
\<close>

theorem ten_displayed_as_one:
  assumes stale: "\<And>j. 28 \<le> j \<Longrightarrow> j \<le> 56 \<Longrightarrow>
      stale j = CHR ''0'' \<or> stale j = CHR 0x00 \<or> stale j = CHR ''.''"
  shows "format_fpu64 (AMOUNT_SIZE_IN_CHARS + 1) 10000000000000000000 18
           = Some ''10.000000000000000000''
         \<and> displayed_amount stale 10000000000000000000 = Some ''stBTC 1''"
proof -
  have "c_string (trim_value_with_ticker stale ''10.000000000000000000'') value_with_ticker_size
          = take (Suc 6) ''stBTC 10.000000000000000000''"
    by (rule trim_value_with_ticker_cut) (simp_all add: stale)
  then show ?thesis
    by (simp add: displayed_amount_def withdraw_constants format_ten)
qed

theorem ten_displayed_as_one_witness:
  "format_fpu64 (AMOUNT_SIZE_IN_CHARS + 1) 10000000000000000000 18
     = Some ''10.000000000000000000''
   \<and> displayed_amount (\<lambda>_. CHR 0x00) 10000000000000000000 = Some ''stBTC 1''"
  by (rule ten_displayed_as_one) simp

text \<open>
  Claim C3, at the amount zero. The full rendering is \<open>0.000000000000000000\<close>; on a
  zeroed stack the scan walks over the terminator, the fractional zeroes, the decimal
  point and the zero of the integer part, and stops on the space after the ticker: the
  text shown is \<open>stBTC \<close>, without any digit.
\<close>

theorem zero_amount_digit_stripped:
  "format_fpu64 (AMOUNT_SIZE_IN_CHARS + 1) 0 18 = Some ''0.000000000000000000''
   \<and> displayed_amount (\<lambda>_. CHR 0x00) 0 = Some ''stBTC ''"
proof -
  have "c_string (trim_value_with_ticker (\<lambda>_. CHR 0x00) ''0.000000000000000000'')
          value_with_ticker_size = take (Suc 5) ''stBTC 0.000000000000000000''"
    by (rule trim_value_with_ticker_cut) simp_all
  then show ?thesis
    by (simp add: displayed_amount_def withdraw_constants format_zero)
qed

lemma one_displayed:
  "c_string (trim_value_with_ticker (\<lambda>_. CHR 0x00) ''1.000000000000000000'') 57 = ''stBTC 1''"
proof -
  have "c_string (trim_value_with_ticker (\<lambda>_. CHR 0x00) ''1.000000000000000000'')
          value_with_ticker_size = take (Suc 6) ''stBTC 1.000000000000000000''"
    by (rule trim_value_with_ticker_cut) simp_all
  then show ?thesis by (simp add: withdraw_constants)
qed

subsection \<open>The script length\<close>

lemma script_len_arg_zero: "read_u16_be data_chunk 30 = 0 \<Longrightarrow> script_len_arg data_chunk = - 1"
  by (simp add: script_len_arg_def len_redeemer_output_script_def)

text \<open>
  Claim C10. When the 16-bit length field of chunk 10 (bytes 30 and 31) is zero, the
  length that the script decoders receive is \<open>0 - 1\<close> in \<^verbatim>\<open>size_t\<close>, that is
  4294967295 on the 32-bit device: the confirmation function calls
  \<^verbatim>\<open>get_script_type\<close> and \<^verbatim>\<open>get_script_address\<close> with it, whatever else the request
  holds.
\<close>

theorem script_length_underflow:
  assumes "read_u16_be (snd (call_get_merkle_leaf_element e DATA_CHUNK_INDEX_2)) 30 = 0"
  shows "script_len_arg (snd (call_get_merkle_leaf_element e DATA_CHUNK_INDEX_2)) = 4294967295
         \<and> (\<exists>ok rest. display_data_content_and_confirm e path =
               (ok, Get_script_type 4294967295 # Get_script_address 4294967295 # rest))"
proof -
  obtain val where val:
    "format_fpu64 (AMOUNT_SIZE_IN_CHARS + 1)
       (read_u64_be (snd (call_get_merkle_leaf_element e DATA_CHUNK_INDEX_1))
          (CHUNK_SECOND_PART + 24)) 18 = Some val"
    using format_fpu64_fits by blast
  have arg: "script_len_arg (snd (call_get_merkle_leaf_element e DATA_CHUNK_INDEX_2)) = 4294967295"
    using script_len_arg_zero [OF assms] by simp
  have "\<exists>ok rest. display_data_content_and_confirm e path =
               (ok, Get_script_type 4294967295 # Get_script_address 4294967295 # rest)"
    unfolding display_data_content_and_confirm_def Let_def
    using val arg by (auto simp add: withdraw_constants split: prod.splits)
  with arg show ?thesis by simp
qed

theorem script_length_underflow_witness:
  "read_u16_be (snd (call_get_merkle_leaf_element env_script_length_0 DATA_CHUNK_INDEX_2)) 30 = 0
   \<and> script_len_arg (snd (call_get_merkle_leaf_element env_script_length_0 DATA_CHUNK_INDEX_2))
       = 4294967295
   \<and> (\<exists>ok rest. display_data_content_and_confirm env_script_length_0
                    (bip32_path example_request) =
         (ok, Get_script_type 4294967295 # Get_script_address 4294967295 # rest))"
proof -
  have h: "read_u16_be (snd (call_get_merkle_leaf_element env_script_length_0 DATA_CHUNK_INDEX_2)) 30 = 0"
    by (simp add: env_script_length_0_def example_env_def DATA_CHUNK_INDEX_2_def read_u16_be_def)
  show ?thesis
    using h script_length_underflow [OF h, of "bip32_path example_request"] by simp
qed

subsection \<open>No trailing decimal point\<close>

lemma c_string_prefix:
  assumes "bytes_at p 0 (length xs) = xs" and "CHR 0x00 \<notin> set xs"
    and "p (length xs) = CHR 0x00" and "length xs < n"
  shows "c_string p n = xs"
proof -
  from assms(4) obtain m where "n = Suc (length xs + m)"
    by (auto dest: less_imp_Suc_add)
  then have m: "n = length xs + Suc m" by simp
  have "bytes_at p 0 (length xs + Suc m)
      = bytes_at p 0 (length xs) @ bytes_at p (0 + length xs) (Suc m)"
    by (rule bytes_at_append)
  also have "\<dots> = xs @ p (length xs) # bytes_at p (Suc (length xs)) m"
    by (simp only: assms(1) bytes_at_Suc add_0)
  finally have "bytes_at p 0 n = xs @ CHR 0x00 # bytes_at p (Suc (length xs)) m"
    by (simp only: m assms(3))
  moreover have "takeWhile (\<lambda>c. c \<noteq> CHR 0x00) (xs @ CHR 0x00 # bytes_at p (Suc (length xs)) m)
      = xs @ takeWhile (\<lambda>c. c \<noteq> CHR 0x00) (CHR 0x00 # bytes_at p (Suc (length xs)) m)"
    using assms(2) by (intro takeWhile_append2) auto
  ultimately show ?thesis by (simp add: c_string_def)
qed

lemma trim_scan_ge:
  "k \<le> n \<Longrightarrow> \<not> (b k = CHR ''0'' \<or> b k = CHR 0x00 \<or> b k = CHR ''.'') \<Longrightarrow> k \<le> trim_scan b n"
proof (induction n)
  case 0
  then show ?case by simp
next
  case (Suc n)
  show ?case
  proof (cases "k = Suc n")
    case True
    with Suc.prems show ?thesis by (simp add: trim_scan_stop)
  next
    case False
    with Suc.prems have "k \<le> trim_scan b n" by (intro Suc.IH) simp_all
    moreover have "k \<le> Suc n" using Suc.prems by simp
    ultimately show ?thesis
      by (cases "b (Suc n) = CHR ''0'' \<or> b (Suc n) = CHR 0x00 \<or> b (Suc n) = CHR ''.''")
         (simp_all add: trim_scan_step trim_scan_stop)
  qed
qed

lemma trim_scan_stops:
  "trim_scan b n = 0 \<or>
   \<not> (b (trim_scan b n) = CHR ''0'' \<or> b (trim_scan b n) = CHR 0x00 \<or> b (trim_scan b n) = CHR ''.'')"
proof (induction n)
  case 0
  then show ?case
    by (cases "b 0 = CHR ''0'' \<or> b 0 = CHR 0x00 \<or> b 0 = CHR ''.''")
       (simp_all add: trim_scan_step trim_scan_stop)
next
  case (Suc n)
  then show ?case
    by (cases "b (Suc n) = CHR ''0'' \<or> b (Suc n) = CHR 0x00 \<or> b (Suc n) = CHR ''.''")
       (simp_all add: trim_scan_step trim_scan_stop)
qed

lemma trim_scan_le: "trim_scan b n \<le> n"
proof (induction n)
  case 0
  then show ?case
    by (cases "b 0 = CHR ''0'' \<or> b 0 = CHR 0x00 \<or> b 0 = CHR ''.''")
       (simp_all add: trim_scan_step trim_scan_stop)
next
  case (Suc n)
  then show ?case
    by (cases "b (Suc n) = CHR ''0'' \<or> b (Suc n) = CHR 0x00 \<or> b (Suc n) = CHR ''.''")
       (simp_all add: trim_scan_step trim_scan_stop)
qed

lemma digit_char_in: "d < 10 \<Longrightarrow> digit_char d \<in> set ''0123456789''"
  unfolding digit_char_def by (intro nth_mem) simp

lemma dec_digits_chars: "set (dec_digits n) \<subseteq> set ''0123456789''"
proof (induction n rule: dec_digits.induct)
  case (1 n)
  show ?case
  proof (cases "n < 10")
    case True
    then show ?thesis using digit_char_in [of n] by (simp add: dec_digits_small)
  next
    case False
    have "digit_char (n mod 10) \<in> set ''0123456789''"
      by (rule digit_char_in) simp
    with False "1.IH" show ?thesis by (simp add: dec_digits_large)
  qed
qed

lemma dec_digits_nonempty: "dec_digits n \<noteq> []"
  by (cases "n < 10") (simp_all add: dec_digits_small dec_digits_large)

lemma format_fpu64_Some:
  assumes "format_fpu64 dst_len v decimals = Some val"
  shows "val = dec_digits (unat v div 10 ^ decimals) @ ''.''
           @ replicate (decimals - length (dec_digits (unat v mod 10 ^ decimals))) (CHR ''0'')
           @ dec_digits (unat v mod 10 ^ decimals)
         \<and> length val < dst_len"
  using assms unfolding format_fpu64_def Let_def
  by (auto split: if_splits)

lemma format_fpu64_shape:
  assumes "format_fpu64 dst_len v decimals = Some val"
  shows "CHR 0x00 \<notin> set val \<and> val \<noteq> [] \<and> last val \<noteq> CHR ''.'' \<and> length val < dst_len"
proof -
  define frac where "frac = dec_digits (unat v mod 10 ^ decimals)"
  define whole where "whole = dec_digits (unat v div 10 ^ decimals)"
  note parts = format_fpu64_Some [OF assms]
  have val: "val = whole @ ''.'' @ replicate (decimals - length frac) (CHR ''0'') @ frac"
    unfolding frac_def whole_def by (rule parts [THEN conjunct1])
  have len: "length val < dst_len"
    by (rule parts [THEN conjunct2])
  have f1: "set frac \<subseteq> set ''0123456789''"
    unfolding frac_def by (rule dec_digits_chars)
  have f2: "frac \<noteq> []"
    unfolding frac_def by (rule dec_digits_nonempty)
  have w: "set whole \<subseteq> set ''0123456789''"
    unfolding whole_def by (rule dec_digits_chars)
  have digits: "CHR 0x00 \<notin> set ''0123456789''" "CHR ''.'' \<notin> set ''0123456789''"
    by simp_all
  have "last val = last frac"
    unfolding val using f2 by simp
  moreover have "last frac \<in> set ''0123456789''"
    using f1 f2 last_in_set by blast
  ultimately have point: "last val \<noteq> CHR ''.''"
    using digits(2) by metis
  have n1: "CHR 0x00 \<notin> set whole" using w digits(1) by blast
  have n2: "CHR 0x00 \<notin> set frac" using f1 digits(1) by blast
  have n3: "CHR 0x00 \<notin> set (replicate (decimals - length frac) (CHR ''0''))"
    by (simp add: set_replicate_conv_if)
  have nonul: "CHR 0x00 \<notin> set val"
    unfolding val using n1 n2 n3 by simp
  have "val \<noteq> []"
    unfolding val by simp
  with point nonul len show ?thesis
    by blast
qed

text \<open>
  The first half of claim C3 holds for every amount and every stack content: the text
  shown is not empty and does not end in a decimal point.
\<close>

lemma displayed_amount_no_trailing_point:
  assumes "displayed_amount stale v = Some shown"
  shows "shown \<noteq> [] \<and> last shown \<noteq> CHR ''.''"
proof -
  obtain val where val: "format_fpu64 51 v 18 = Some val"
    and shown: "shown = c_string (trim_value_with_ticker stale val) 57"
    using assms by (auto simp add: displayed_amount_def withdraw_constants split: option.splits)
  define s where "s = ''stBTC '' @ val"
  have shape: "CHR 0x00 \<notin> set val" "val \<noteq> []" "last val \<noteq> CHR ''.''" "length val < 51"
    using format_fpu64_shape [OF val] by simp_all
  have len: "length s \<le> 56" using shape(4) by (simp add: s_def)
  have nonul: "CHR 0x00 \<notin> set s" using shape(1) by (simp add: s_def)
  have s_last: "last s \<noteq> CHR ''.''" "s \<noteq> []" using shape(2,3) by (simp_all add: s_def)
  define b where "b = snprintf stale 57 s"
  have b_eq: "b = memcpy stale 0 (s @ [CHR 0x00])"
    using len by (simp add: b_def snprintf_def)
  have b_low: "b j = s ! j" if "j < length s" for j
    using that by (simp add: b_eq memcpy_def nth_append)
  have b_nul: "b (length s) = CHR 0x00"
    by (simp add: b_eq memcpy_def nth_append)
  define i where "i = trim_scan b 56"
  have i5: "5 \<le> i"
    unfolding i_def by (rule trim_scan_ge) (simp_all add: b_low s_def)
  have i56: "i \<le> 56" unfolding i_def by (rule trim_scan_le)
  have stop: "\<not> (b i = CHR ''0'' \<or> b i = CHR 0x00 \<or> b i = CHR ''.'')"
    using trim_scan_stops [of b 56] i5 by (simp add: i_def)
  have tv: "trim_value_with_ticker stale val = (if i < 56 then b (Suc i := CHR 0x00) else b)"
    unfolding trim_value_with_ticker_def Let_def
    by (simp add: withdraw_constants b_def s_def i_def)
  have i_not_len: "i \<noteq> length s" using stop b_nul by auto
  show ?thesis
  proof (cases "i < length s")
    case True
    have "c_string (b (Suc i := CHR 0x00)) 57 = take (Suc i) s"
    proof (rule c_string_prefix)
      show "bytes_at (b (Suc i := CHR 0x00)) 0 (length (take (Suc i) s)) = take (Suc i) s"
        using True by (intro nth_equalityI) (simp_all add: b_low)
      show "CHR 0x00 \<notin> set (take (Suc i) s)"
        using nonul by (meson in_set_takeD)
      show "(b (Suc i := CHR 0x00)) (length (take (Suc i) s)) = CHR 0x00"
        using True by simp
      show "length (take (Suc i) s) < 57" using True len by simp
    qed
    then have sh: "shown = take (Suc i) s"
      using True len by (simp add: shown tv)
    have "last (take (Suc i) s) = s ! i"
      using True by (simp add: take_Suc_conv_app_nth)
    then show ?thesis
      using stop True s_last(2) by (simp add: sh b_low)
  next
    case False
    with i_not_len have gt: "length s < i" by simp
    have "c_string (if i < 56 then b (Suc i := CHR 0x00) else b) 57 = s"
    proof (rule c_string_prefix)
      show "bytes_at (if i < 56 then b (Suc i := CHR 0x00) else b) 0 (length s) = s"
        using gt by (intro nth_equalityI) (simp_all add: b_low)
      show "CHR 0x00 \<notin> set s" by (rule nonul)
      show "(if i < 56 then b (Suc i := CHR 0x00) else b) (length s) = CHR 0x00"
        using gt by (simp add: b_nul)
      show "length s < 57" using len by simp
    qed
    then show ?thesis
      using s_last by (simp add: shown tv)
  qed
qed

subsection \<open>Buffers\<close>

lemma length_digest_bytes [simp]: "length (digest_bytes w) = 32"
  by (simp add: digest_bytes_def)

lemma bytes_at_memcpy_same: "bytes_at (memcpy d off xs) off (length xs) = xs"
  by (intro nth_equalityI) (simp_all add: memcpy_def)

lemma bytes_at_memcpy_before: "bytes_at (memcpy d off xs) 0 off = bytes_at d 0 off"
  by (intro nth_equalityI) (simp_all add: memcpy_def)

lemma bytes_at_memcpy_snoc:
  "length xs = n \<Longrightarrow> bytes_at (memcpy d off xs) 0 (off + n) = bytes_at d 0 off @ xs"
  using bytes_at_memcpy_same [of d off xs] bytes_at_memcpy_before [of d off xs]
  by (simp add: bytes_at_append)

lemma length_left_pad32: "length xs \<le> 32 \<Longrightarrow> length (left_pad32 xs) = 32"
  by (simp add: left_pad32_def)

lemma left_pad32_full: "length xs = 32 \<Longrightarrow> left_pad32 xs = xs"
  by (simp add: left_pad32_def)

lemma bytes_at_add_leading_zeroes:
  "length src \<le> 32 \<Longrightarrow> bytes_at (add_leading_zeroes d 32 src) 0 32 = left_pad32 src"
  by (intro nth_equalityI)
     (auto simp add: add_leading_zeroes_def memcpy_def memset_def left_pad32_def nth_append)

subsection \<open>Chunk retrieval\<close>

lemma fetch_hash_ok:
  "0 \<le> fst (call_get_merkle_leaf_element e i) \<Longrightarrow>
   fetch_and_add_chunk_to_hash e ctx i off n =
     (ctx @ bytes_at (snd (call_get_merkle_leaf_element e i)) off n, [])"
  by (cases "call_get_merkle_leaf_element e i") (simp add: fetch_and_add_chunk_to_hash_def)

lemma fetch_hash_fail:
  "fst (call_get_merkle_leaf_element e i) < 0 \<Longrightarrow>
   fetch_and_add_chunk_to_hash e ctx i off n =
     (ctx, [SEND_SW SW_WRONG_DATA_LENGTH, Ui_post_processing_confirm_withdraw False])"
  by (cases "call_get_merkle_leaf_element e i") (simp add: fetch_and_add_chunk_to_hash_def)

lemma fetch_buffer_ok:
  assumes "0 \<le> fst (call_get_merkle_leaf_element e i)" and "n \<le> 32"
  shows "fetch_and_add_chunk_to_buffer e i off n out out_off =
     (memcpy out out_off (left_pad32 (bytes_at (snd (call_get_merkle_leaf_element e i)) off n)), [])"
proof (cases "n < 32")
  case True
  then show ?thesis
    using assms
    by (cases "call_get_merkle_leaf_element e i")
       (simp add: fetch_and_add_chunk_to_buffer_def Let_def bytes_at_add_leading_zeroes)
next
  case False
  with assms have n: "n = 32" by simp
  have "bytes_at (memcpy (\<lambda>_. 0) 0 (bytes_at c off 32)) 0 32 = bytes_at c off 32" for c :: "byte buf"
    using bytes_at_memcpy_same [of "\<lambda>_. 0" 0 "bytes_at c off 32"] by simp
  then show ?thesis
    using assms n
    by (cases "call_get_merkle_leaf_element e i")
       (simp add: fetch_and_add_chunk_to_buffer_def Let_def left_pad32_full)
qed

subsection \<open>The payload hash\<close>

lemma hash_tx_data_loop_ok:
  "(\<And>j. i \<le> j \<Longrightarrow> j < n \<Longrightarrow> 0 \<le> fst (call_get_merkle_leaf_element e j)) \<Longrightarrow>
   hash_tx_data_loop e n i ctx =
     (ctx @ concat (map (\<lambda>j. bytes_at (snd (call_get_merkle_leaf_element e j)) 0 32
                              @ bytes_at (snd (call_get_merkle_leaf_element e j)) 32 32)
                     [i ..< n]), [])"
proof (induction e n i ctx rule: hash_tx_data_loop.induct)
  case (1 e n i ctx)
  show ?case
  proof (cases "i < n")
    case False
    then show ?thesis by (subst hash_tx_data_loop.simps) simp
  next
    case True
    have here: "0 \<le> fst (call_get_merkle_leaf_element e i)"
      using "1.prems" [of i] True by simp
    have later: "hash_tx_data_loop e n (Suc i)
        (ctx @ bytes_at (snd (call_get_merkle_leaf_element e i)) 0 32
             @ bytes_at (snd (call_get_merkle_leaf_element e i)) 32 32)
      = (ctx @ bytes_at (snd (call_get_merkle_leaf_element e i)) 0 32
             @ bytes_at (snd (call_get_merkle_leaf_element e i)) 32 32
         @ concat (map (\<lambda>j. bytes_at (snd (call_get_merkle_leaf_element e j)) 0 32
                              @ bytes_at (snd (call_get_merkle_leaf_element e j)) 32 32)
                     [Suc i ..< n]), [])"
      using "1.prems" "1.IH" [OF True refl refl] by (simp add: fetch_hash_ok [OF here])
    show ?thesis
      by (subst hash_tx_data_loop.simps)
         (simp add: True Let_def later fetch_hash_ok [OF here] upt_conv_Cons)
  qed
qed

text \<open>
  Claim C5. When chunk 4 and every chunk from 5 to \<open>n - 1\<close> can be retrieved (\<open>n\<close> the
  number of chunks), the payload hash is the keccak256 digest of the first 4 bytes of
  chunk 4 followed, for each index from 5 to \<open>n - 1\<close> in increasing order, by bytes [0,32) and then bytes
  [32,64) of that chunk; nothing is reported to the dispatcher.
\<close>

theorem payload_hash:
  assumes "0 \<le> fst (call_get_merkle_leaf_element e 4)"
    and "\<And>i. 5 \<le> i \<Longrightarrow> i < n \<Longrightarrow> 0 \<le> fst (call_get_merkle_leaf_element e i)"
  shows "fetch_and_hash_tx_data e n [] =
     (digest_bytes (keccak256 e
        (bytes_at (snd (call_get_merkle_leaf_element e 4)) 0 4
         @ concat (map (\<lambda>i. bytes_at (snd (call_get_merkle_leaf_element e i)) 0 32
                              @ bytes_at (snd (call_get_merkle_leaf_element e i)) 32 32)
                    [5 ..< n]))), [])"
  using assms
  by (simp add: fetch_and_hash_tx_data_def Let_def fetch_hash_ok hash_tx_data_loop_ok)

theorem payload_hash_witness:
  "fetch_and_hash_tx_data example_env 11 [] =
     (digest_bytes (keccak256 example_env
        (bytes_at (snd (call_get_merkle_leaf_element example_env 4)) 0 4
         @ concat (map (\<lambda>i. bytes_at (snd (call_get_merkle_leaf_element example_env i)) 0 32
                              @ bytes_at (snd (call_get_merkle_leaf_element example_env i)) 32 32)
                    [5 ..< 11]))), [])"
  by (rule payload_hash) (simp_all add: example_env_def)

subsection \<open>The domain separator\<close>

lemma abi_encoded_chain_id_be: "abi_encoded_chain_id c = be_bytes 32 (chain_id c)"
  by (cases c) (simp_all add: be_bytes_def bytes_at_numeral bytes_at_Suc)

text \<open>
  Claim C7. When chunk 7 can be retrieved, the domain-separator hash is the keccak256
  digest of the 32-byte type-hash constant, the chain identifier of the configured
  network as a zero-padded big-endian 32-byte word, and bytes [0,32) of chunk 7.
\<close>

theorem domain_separator_is_keccak_of_three_words:
  assumes "0 \<le> fst (call_get_merkle_leaf_element e 7)"
  shows "compute_domain_separator_hash e =
     (digest_bytes (keccak256 e
        (domain_separator_typehash @ be_bytes 32 (chain_id (coin e))
         @ bytes_at (snd (call_get_merkle_leaf_element e 7)) 0 32)), [])
     \<and> length domain_separator_typehash = 32
     \<and> length (be_bytes 32 (chain_id (coin e))) = 32"
  using assms
  by (simp add: compute_domain_separator_hash_def Let_def fetch_hash_ok abi_encoded_chain_id_be
      domain_separator_typehash_def be_bytes_def)

theorem domain_separator_is_keccak_of_three_words_witness:
  "compute_domain_separator_hash example_env =
     (digest_bytes (keccak256 example_env
        (domain_separator_typehash @ be_bytes 32 (chain_id (coin example_env))
         @ bytes_at (snd (call_get_merkle_leaf_element example_env 7)) 0 32)), [])
     \<and> length domain_separator_typehash = 32
     \<and> length (be_bytes 32 (chain_id (coin example_env))) = 32"
  by (rule domain_separator_is_keccak_of_three_words) (simp add: example_env_def)

subsection \<open>The struct hash\<close>

text \<open>Eleven 32-byte words written one after the other fill the 352 bytes in order.\<close>

lemma eleven_words:
  assumes "length w0 = 32" "length w1 = 32" "length w2 = 32" "length w3 = 32" "length w4 = 32"
    "length w5 = 32" "length w6 = 32" "length w7 = 32" "length w8 = 32" "length w9 = 32"
    "length w10 = 32"
  shows "bytes_at
     (memcpy (memcpy (memcpy (memcpy (memcpy (memcpy (memcpy (memcpy (memcpy (memcpy (memcpy
        out 0 w0) 32 w1) 64 w2) 96 w3) 128 w4) 160 w5) 192 w6) 224 w7) 256 w8) 288 w9) 320 w10)
     0 352
     = w0 @ w1 @ w2 @ w3 @ w4 @ w5 @ w6 @ w7 @ w8 @ w9 @ w10"
proof -
  define b0 where "b0 = memcpy out 0 w0"
  define b1 where "b1 = memcpy b0 32 w1"
  define b2 where "b2 = memcpy b1 64 w2"
  define b3 where "b3 = memcpy b2 96 w3"
  define b4 where "b4 = memcpy b3 128 w4"
  define b5 where "b5 = memcpy b4 160 w5"
  define b6 where "b6 = memcpy b5 192 w6"
  define b7 where "b7 = memcpy b6 224 w7"
  define b8 where "b8 = memcpy b7 256 w8"
  define b9 where "b9 = memcpy b8 288 w9"
  define b10 where "b10 = memcpy b9 320 w10"
  have s0: "bytes_at b0 0 32 = w0"
    using bytes_at_memcpy_snoc [of w0 32 out 0] assms by (simp add: b0_def)
  have s1: "bytes_at b1 0 64 = bytes_at b0 0 32 @ w1"
    using bytes_at_memcpy_snoc [of w1 32 b0 32] assms by (simp add: b1_def)
  have s2: "bytes_at b2 0 96 = bytes_at b1 0 64 @ w2"
    using bytes_at_memcpy_snoc [of w2 32 b1 64] assms by (simp add: b2_def)
  have s3: "bytes_at b3 0 128 = bytes_at b2 0 96 @ w3"
    using bytes_at_memcpy_snoc [of w3 32 b2 96] assms by (simp add: b3_def)
  have s4: "bytes_at b4 0 160 = bytes_at b3 0 128 @ w4"
    using bytes_at_memcpy_snoc [of w4 32 b3 128] assms by (simp add: b4_def)
  have s5: "bytes_at b5 0 192 = bytes_at b4 0 160 @ w5"
    using bytes_at_memcpy_snoc [of w5 32 b4 160] assms by (simp add: b5_def)
  have s6: "bytes_at b6 0 224 = bytes_at b5 0 192 @ w6"
    using bytes_at_memcpy_snoc [of w6 32 b5 192] assms by (simp add: b6_def)
  have s7: "bytes_at b7 0 256 = bytes_at b6 0 224 @ w7"
    using bytes_at_memcpy_snoc [of w7 32 b6 224] assms by (simp add: b7_def)
  have s8: "bytes_at b8 0 288 = bytes_at b7 0 256 @ w8"
    using bytes_at_memcpy_snoc [of w8 32 b7 256] assms by (simp add: b8_def)
  have s9: "bytes_at b9 0 320 = bytes_at b8 0 288 @ w9"
    using bytes_at_memcpy_snoc [of w9 32 b8 288] assms by (simp add: b9_def)
  have s10: "bytes_at b10 0 352 = bytes_at b9 0 320 @ w10"
    using bytes_at_memcpy_snoc [of w10 32 b9 320] assms by (simp add: b10_def)
  have "bytes_at b10 0 352 = w0 @ w1 @ w2 @ w3 @ w4 @ w5 @ w6 @ w7 @ w8 @ w9 @ w10"
    by (simp add: s0 s1 s2 s3 s4 s5 s6 s7 s8 s9 s10)
  then show ?thesis
    by (simp add: b0_def b1_def b2_def b3_def b4_def b5_def b6_def b7_def b8_def b9_def b10_def)
qed

lemma length_payload [simp]: "length (fst (fetch_and_hash_tx_data e n ctx)) = 32"
  by (simp add: fetch_and_hash_tx_data_def Let_def)

lemma length_safe_tx_typehash [simp]: "length safe_tx_typehash = 32"
  by (simp add: safe_tx_typehash_def)

lemma fields_always_ok:
  "fst (fetch_and_abi_encode_tx_fields e dh out (FIELD_SIZE * 11)) = True"
  by (simp add: fetch_and_abi_encode_tx_fields_def Let_def)

lemma abi_encode_packed_eq:
  assumes "length dsh = 32" "length sh = 32"
  shows "abi_encode_packed dsh sh = [0x19, 0x01] @ dsh @ sh"
proof -
  have a: "bytes_at (memcpy (\<lambda>_. 0) 0 [0x19, 0x01 :: byte]) 0 2 = [0x19, 0x01]"
    by (simp add: bytes_at_numeral bytes_at_Suc memcpy_def)
  have b: "bytes_at (memcpy (memcpy (\<lambda>_. 0) 0 [0x19, 0x01]) 2 dsh) 0 34
             = bytes_at (memcpy (\<lambda>_. 0) 0 [0x19, 0x01 :: byte]) 0 2 @ dsh"
    using bytes_at_memcpy_snoc [of dsh 32 "memcpy (\<lambda>_. 0) 0 [0x19, 0x01]" 2] assms by simp
  have c: "bytes_at (memcpy (memcpy (memcpy (\<lambda>_. 0) 0 [0x19, 0x01]) 2 dsh) 34 sh) 0 66
             = bytes_at (memcpy (memcpy (\<lambda>_. 0) 0 [0x19, 0x01]) 2 dsh) 0 34 @ sh"
    using bytes_at_memcpy_snoc [of sh 32 "memcpy (memcpy (\<lambda>_. 0) 0 [0x19, 0x01]) 2 dsh" 34] assms
    by simp
  show ?thesis
    using assms by (simp add: abi_encode_packed_def KECCAK_256_HASH_SIZE_def a b c)
qed

lemma length_domain_separator [simp]: "length (fst (compute_domain_separator_hash e)) = 32"
  by (simp add: compute_domain_separator_hash_def Let_def)

lemma compute_tx_hash_eq:
  "fst (compute_tx_hash e n out) =
     memcpy out 0
       (digest_bytes (keccak256 e
          ([0x19, 0x01] @ fst (compute_domain_separator_hash e)
           @ digest_bytes (keccak256 e
               (bytes_at (fst (snd (fetch_and_abi_encode_tx_fields e
                    (fst (fetch_and_hash_tx_data e n [])) (stack_abi_encoded_tx_fields e)
                    (FIELD_SIZE * 11)))) 0 (FIELD_SIZE * 11))))))"
proof -
  obtain ok fields ev where f:
    "fetch_and_abi_encode_tx_fields e (fst (fetch_and_hash_tx_data e n []))
       (stack_abi_encoded_tx_fields e) (FIELD_SIZE * 11) = (ok, fields, ev)"
    by (cases "fetch_and_abi_encode_tx_fields e (fst (fetch_and_hash_tx_data e n []))
       (stack_abi_encoded_tx_fields e) (FIELD_SIZE * 11)") auto
  have ok: "ok"
    using fields_always_ok [of e "fst (fetch_and_hash_tx_data e n [])" "stack_abi_encoded_tx_fields e"] f
    by simp
  show ?thesis
    by (simp add: compute_tx_hash_def Let_def f ok abi_encode_packed_eq)
qed

text \<open>
  Claim C6. When chunks 0 to 3 can be retrieved, the buffer that is hashed into the struct
  hash has 352 bytes and holds, in order, the struct type-hash, \<open>to\<close> (chunk 0 [0,20)),
  \<open>value\<close> (chunk 1 [0,32)), the payload hash, \<open>operation\<close> (chunk 3 [0,1)),
  \<open>safeTxGas\<close> (chunk 1 [32,64)), \<open>baseGas\<close> (chunk 2 [1,33)), \<open>gasPrice\<close>
  (chunk 2 [32,64)), \<open>gasToken\<close> (chunk 0 [20,40)), \<open>refundReceiver\<close>
  (chunk 0 [40,60)) and \<open>nonce\<close> (chunk 3 [0,32)); the narrow fields are zero-padded
  on the left to 32 bytes, the two hashes are copied as they are, and the struct hash
  that enters the final hash is the keccak256 digest of this buffer.
\<close>

theorem struct_hash_fields:
  assumes "\<And>i. i < 4 \<Longrightarrow> 0 \<le> fst (call_get_merkle_leaf_element e i)"
  shows "let chunk = (\<lambda>i. snd (call_get_merkle_leaf_element e i));
             payload = fst (fetch_and_hash_tx_data e n []);
             fields = safe_tx_typehash
               @ left_pad32 (bytes_at (chunk 0) 0 20)
               @ bytes_at (chunk 1) 0 32
               @ payload
               @ left_pad32 (bytes_at (chunk 3) 0 1)
               @ bytes_at (chunk 1) 32 32
               @ bytes_at (chunk 2) 1 32
               @ bytes_at (chunk 2) 32 32
               @ left_pad32 (bytes_at (chunk 0) 20 20)
               @ left_pad32 (bytes_at (chunk 0) 40 20)
               @ bytes_at (chunk 3) 0 32
         in length fields = 352
          \<and> (\<exists>buffer. fetch_and_abi_encode_tx_fields e payload out (FIELD_SIZE * 11)
                         = (True, buffer, [])
                     \<and> bytes_at buffer 0 352 = fields)
          \<and> fst (compute_tx_hash e n tx_hash) =
               memcpy tx_hash 0
                 (digest_bytes (keccak256 e
                    ([0x19, 0x01] @ fst (compute_domain_separator_hash e)
                     @ digest_bytes (keccak256 e fields))))"
proof -
  define chunk where "chunk = (\<lambda>i. snd (call_get_merkle_leaf_element e i))"
  define payload where "payload = fst (fetch_and_hash_tx_data e n [])"
  define fields where "fields = safe_tx_typehash
               @ left_pad32 (bytes_at (chunk 0) 0 20)
               @ bytes_at (chunk 1) 0 32
               @ payload
               @ left_pad32 (bytes_at (chunk 3) 0 1)
               @ bytes_at (chunk 1) 32 32
               @ bytes_at (chunk 2) 1 32
               @ bytes_at (chunk 2) 32 32
               @ left_pad32 (bytes_at (chunk 0) 20 20)
               @ left_pad32 (bytes_at (chunk 0) 40 20)
               @ bytes_at (chunk 3) 0 32"
  have ok: "0 \<le> fst (call_get_merkle_leaf_element e 0)" "0 \<le> fst (call_get_merkle_leaf_element e 1)"
    "0 \<le> fst (call_get_merkle_leaf_element e 2)" "0 \<le> fst (call_get_merkle_leaf_element e 3)"
    "0 \<le> fst (call_get_merkle_leaf_element e (Suc 0))"
    using assms [of 0] assms [of 1] assms [of 2] assms [of 3] by simp_all
  have len: "length fields = 352"
    by (simp add: fields_def payload_def length_left_pad32)
  have encode: "fetch_and_abi_encode_tx_fields e payload buf (FIELD_SIZE * 11) =
      (True,
       memcpy (memcpy (memcpy (memcpy (memcpy (memcpy (memcpy (memcpy (memcpy (memcpy (memcpy
         buf 0 safe_tx_typehash)
         32 (left_pad32 (bytes_at (chunk 0) 0 20)))
         64 (bytes_at (chunk 1) 0 32))
         96 payload)
         128 (left_pad32 (bytes_at (chunk 3) 0 1)))
         160 (bytes_at (chunk 1) 32 32))
         192 (bytes_at (chunk 2) 1 32))
         224 (bytes_at (chunk 2) 32 32))
         256 (left_pad32 (bytes_at (chunk 0) 20 20)))
         288 (left_pad32 (bytes_at (chunk 0) 40 20)))
         320 (bytes_at (chunk 3) 0 32),
       [])" for buf
    unfolding fetch_and_abi_encode_tx_fields_def Let_def
    by (simp add: fetch_buffer_ok ok FIELD_SIZE_def ADDRESS_SIZE_IN_BYTES_def left_pad32_full
        chunk_def payload_def)
  have bytes: "bytes_at (fst (snd (fetch_and_abi_encode_tx_fields e payload buf (FIELD_SIZE * 11))))
      0 352 = fields" for buf
    unfolding encode fields_def
    by (simp add: eleven_words length_left_pad32 payload_def)
  have final: "fst (compute_tx_hash e n tx_hash) =
               memcpy tx_hash 0
                 (digest_bytes (keccak256 e
                    ([0x19, 0x01] @ fst (compute_domain_separator_hash e)
                     @ digest_bytes (keccak256 e fields))))"
    using bytes [of "stack_abi_encoded_tx_fields e"]
    by (simp add: compute_tx_hash_eq payload_def [symmetric] FIELD_SIZE_def)
  have "\<exists>buffer. fetch_and_abi_encode_tx_fields e payload out (FIELD_SIZE * 11)
                         = (True, buffer, [])
                     \<and> bytes_at buffer 0 352 = fields"
    using bytes [of out] by (simp add: encode)
  with len final show ?thesis
    unfolding Let_def chunk_def [symmetric] payload_def [symmetric] fields_def [symmetric]
    by simp
qed

theorem struct_hash_fields_witness:
  "let chunk = (\<lambda>i. snd (call_get_merkle_leaf_element example_env i));
       payload = fst (fetch_and_hash_tx_data example_env 11 []);
       fields = safe_tx_typehash
         @ left_pad32 (bytes_at (chunk 0) 0 20)
         @ bytes_at (chunk 1) 0 32
         @ payload
         @ left_pad32 (bytes_at (chunk 3) 0 1)
         @ bytes_at (chunk 1) 32 32
         @ bytes_at (chunk 2) 1 32
         @ bytes_at (chunk 2) 32 32
         @ left_pad32 (bytes_at (chunk 0) 20 20)
         @ left_pad32 (bytes_at (chunk 0) 40 20)
         @ bytes_at (chunk 3) 0 32
   in length fields = 352
    \<and> (\<exists>buffer. fetch_and_abi_encode_tx_fields example_env payload
                    (stack_abi_encoded_tx_fields example_env) (FIELD_SIZE * 11)
                   = (True, buffer, [])
               \<and> bytes_at buffer 0 352 = fields)
    \<and> fst (compute_tx_hash example_env 11 (stack_tx_hash example_env)) =
         memcpy (stack_tx_hash example_env) 0
           (digest_bytes (keccak256 example_env
              ([0x19, 0x01] @ fst (compute_domain_separator_hash example_env)
               @ digest_bytes (keccak256 example_env fields))))"
  by (rule struct_hash_fields) (simp add: example_env_def)

subsection \<open>The final hash\<close>

text \<open>
  Claim C4, as amended. The final hash is the keccak256 digest of exactly 66 bytes: the two
  bytes 0x19 0x01, the 32-byte domain-separator hash and the 32-byte struct hash (the
  keccak256 digest of the 352-byte field buffer), in that order. The handler renders these
  32 bytes in hexadecimal and signs the message digest of that string.
\<close>

theorem tx_hash_is_keccak_of_66_bytes:
  "let domain_separator_hash = fst (compute_domain_separator_hash e);
       fields = fst (snd (fetch_and_abi_encode_tx_fields e (fst (fetch_and_hash_tx_data e n []))
                            (stack_abi_encoded_tx_fields e) (FIELD_SIZE * 11)));
       struct_hash = digest_bytes (keccak256 e (bytes_at fields 0 (FIELD_SIZE * 11)));
       message = [0x19, 0x01] @ domain_separator_hash @ struct_hash
   in length domain_separator_hash = 32 \<and> length struct_hash = 32 \<and> length message = 66
    \<and> bytes_at (fst (compute_tx_hash e n out)) 0 KECCAK_256_HASH_SIZE
        = digest_bytes (keccak256 e message)"
proof -
  have "bytes_at (memcpy out 0 (digest_bytes w)) 0 32 = digest_bytes w" for w
    using bytes_at_memcpy_same [of out 0 "digest_bytes w"] by simp
  then show ?thesis
    by (simp add: Let_def compute_tx_hash_eq KECCAK_256_HASH_SIZE_def)
qed

text \<open>
  Claim C4, as stated, at the example request: the message whose digest is the final hash
  has 66 bytes, not 34.
\<close>

theorem tx_hash_message_not_34_bytes:
  "length (abi_encode_packed (fst (compute_domain_separator_hash example_env))
       (digest_bytes (keccak256 example_env
          (bytes_at (fst (snd (fetch_and_abi_encode_tx_fields example_env
                (fst (fetch_and_hash_tx_data example_env 11 []))
                (stack_abi_encoded_tx_fields example_env) (FIELD_SIZE * 11))))
             0 (FIELD_SIZE * 11))))) \<noteq> 34
   \<and> fst (compute_tx_hash example_env 11 (stack_tx_hash example_env)) =
       memcpy (stack_tx_hash example_env) 0
         (digest_bytes (keccak256 example_env
            (abi_encode_packed (fst (compute_domain_separator_hash example_env))
               (digest_bytes (keccak256 example_env
                  (bytes_at (fst (snd (fetch_and_abi_encode_tx_fields example_env
                        (fst (fetch_and_hash_tx_data example_env 11 []))
                        (stack_abi_encoded_tx_fields example_env) (FIELD_SIZE * 11))))
                     0 (FIELD_SIZE * 11)))))))"
  by (simp add: abi_encode_packed_eq compute_tx_hash_eq)

subsection \<open>The response\<close>

lemma copy_backwards_apply:
  "copy_backwards k dst src sig result j =
     (if dst \<le> j \<and> j < dst + k then sig (src + (j - dst)) else result j)"
  by (induction k arbitrary: result) auto

lemma length_right_align32: "length xs \<le> 33 \<Longrightarrow> length (right_align32 xs) = 32"
  by (auto simp add: right_align32_def)

lemma nth_right_align32:
  "length xs \<le> 33 \<Longrightarrow> i < 32 \<Longrightarrow>
   right_align32 xs ! i = (if i + length xs < 32 then 0 else xs ! (i + length xs - 32))"
proof (cases "i + length xs < 32")
  case True
  then have "i < 32 - length xs" by arith
  with True show ?thesis by (simp add: right_align32_def nth_append)
next
  case False
  assume a: "length xs \<le> 33" "i < 32"
  have idx: "length xs - 32 + (i - (32 - length xs)) = i + length xs - 32"
    using False a by arith
  have ge: "\<not> i < 32 - length xs"
    using False by arith
  have "right_align32 xs ! i = drop (length xs - 32) xs ! (i - (32 - length xs))"
    using ge by (simp add: right_align32_def nth_append)
  also have "\<dots> = xs ! (i + length xs - 32)"
    using False a idx by simp
  finally show ?thesis using False by simp
qed

lemma encode_result_eq:
  assumes r: "r_length sig \<le> 33" and s: "s_length sig \<le> 33"
    and nonempty: "0 < r_length sig \<or> s_length sig \<le> 32"
  shows "encode_result sig info =
     (27 + 4 + (if info AND CX_ECCINFO_PARITY_ODD \<noteq> 0 then 1 else 0))
     # right_align32 (bytes_at sig 4 (r_length sig))
     @ right_align32 (bytes_at sig (4 + r_length sig + 2) (s_length sig))"
proof (rule nth_equalityI)
  show "length (encode_result sig info) =
    length ((27 + 4 + (if info AND CX_ECCINFO_PARITY_ODD \<noteq> 0 then 1 else 0))
     # right_align32 (bytes_at sig 4 (r_length sig))
     @ right_align32 (bytes_at sig (4 + r_length sig + 2) (s_length sig)))"
    using r s by (simp add: encode_result_def Let_def length_right_align32)
next
  fix i
  assume "i < length (encode_result sig info)"
  then have i: "i < 65" by (simp add: encode_result_def Let_def)
  consider "i = 0" | "1 \<le> i" "i < 33" | "33 \<le> i" by linarith
  then show "encode_result sig info ! i =
    ((27 + 4 + (if info AND CX_ECCINFO_PARITY_ODD \<noteq> 0 then 1 else 0))
     # right_align32 (bytes_at sig 4 (r_length sig))
     @ right_align32 (bytes_at sig (4 + r_length sig + 2) (s_length sig))) ! i"
  proof cases
    case 1
    then show ?thesis by (simp add: encode_result_def Let_def)
  next
    case 2
    then obtain k where k: "i = Suc k" "k < 32" by (cases i) auto
    have "encode_result sig info ! i =
        (if 33 - r_length sig \<le> i then sig (4 + (i - (33 - r_length sig)))
         else if 65 - s_length sig \<le> i then sig (4 + r_length sig + 2 + (i - (65 - s_length sig)))
         else 0)"
      using i 2 r s by (simp add: encode_result_def Let_def copy_backwards_apply memset_def)
    also have "\<dots> = right_align32 (bytes_at sig 4 (r_length sig)) ! k"
      using k r s nonempty by (auto simp add: nth_right_align32)
    finally show ?thesis
      using k r by (simp add: nth_append length_right_align32)
  next
    case 3
    then obtain k where k: "i = 33 + k" by (auto simp add: le_iff_add)
    with i have k32: "k < 32" by simp
    have "encode_result sig info ! i =
        (if 65 - s_length sig \<le> i then sig (4 + r_length sig + 2 + (i - (65 - s_length sig)))
         else 0)"
      using i 3 r s by (simp add: encode_result_def Let_def copy_backwards_apply memset_def)
    also have "\<dots> = right_align32 (bytes_at sig (4 + r_length sig + 2) (s_length sig)) ! k"
      using k k32 r s by (auto simp add: nth_right_align32)
    finally show ?thesis
      using k k32 r by (simp add: nth_append length_right_align32)
  qed
qed

text \<open>
  Claim C8. When the signer succeeds and both DER components have at most 33 bytes (the
  first one not empty, as in any DER signature), the handler answers with status Ok and
  65 bytes: byte 0 is 27 + 4 plus the parity bit, bytes 1 to 32 hold \<open>r\<close> and bytes 33 to
  64 hold \<open>s\<close>, each right-aligned on 32 bytes with zeroes in front, the leading byte of a
  33-byte component dropped. When a component has more than 33 bytes the request ends with
  BadState and no response.
\<close>

theorem signature_response:
  assumes "crypto_ecdsa_sign_sha256_hash_with_key e path (bsm_digest e tx_hash_str)
             = (sig_len, sig, info)"
    and "0 \<le> sig_len"
  shows "(r_length sig \<le> 33 \<and> s_length sig \<le> 33 \<and> (0 < r_length sig \<or> s_length sig \<le> 32) \<longrightarrow>
            sign_and_respond e path tx_hash_str =
              [Ecdsa_sign path (bsm_digest e tx_hash_str),
               SEND_RESPONSE
                 ((27 + 4 + (if info AND CX_ECCINFO_PARITY_ODD \<noteq> 0 then 1 else 0))
                  # right_align32 (bytes_at sig 4 (r_length sig))
                  @ right_align32 (bytes_at sig (4 + r_length sig + 2) (s_length sig)))
                 SW_OK,
               Ui_post_processing_confirm_withdraw True]
            \<and> length ((27 + 4 + (if info AND CX_ECCINFO_PARITY_ODD \<noteq> 0 then 1 else 0 :: byte))
                  # right_align32 (bytes_at sig 4 (r_length sig))
                  @ right_align32 (bytes_at sig (4 + r_length sig + 2) (s_length sig))) = 65)
       \<and> (33 < r_length sig \<or> 33 < s_length sig \<longrightarrow>
            sign_and_respond e path tx_hash_str =
              [Ecdsa_sign path (bsm_digest e tx_hash_str),
               SEND_SW SW_BAD_STATE, Ui_post_processing_confirm_withdraw False])"
proof -
  have st: "sign_tx_hash e path tx_hash_str = (info, sig, [Ecdsa_sign path (bsm_digest e tx_hash_str)])"
    using assms by (simp add: sign_tx_hash_def)
  have long: "sign_and_respond e path tx_hash_str =
              [Ecdsa_sign path (bsm_digest e tx_hash_str),
               SEND_SW SW_BAD_STATE, Ui_post_processing_confirm_withdraw False]"
    if "33 < r_length sig \<or> 33 < s_length sig"
    using that by (simp add: sign_and_respond_def st)
  have short: "sign_and_respond e path tx_hash_str =
              [Ecdsa_sign path (bsm_digest e tx_hash_str),
               SEND_RESPONSE
                 ((27 + 4 + (if info AND CX_ECCINFO_PARITY_ODD \<noteq> 0 then 1 else 0))
                  # right_align32 (bytes_at sig 4 (r_length sig))
                  @ right_align32 (bytes_at sig (4 + r_length sig + 2) (s_length sig)))
                 SW_OK,
               Ui_post_processing_confirm_withdraw True]"
    if "r_length sig \<le> 33" "s_length sig \<le> 33" "0 < r_length sig \<or> s_length sig \<le> 32"
    using that encode_result_eq [OF that, of info]
    by (simp add: sign_and_respond_def st)
  show ?thesis
    using long short by (auto simp add: length_right_align32)
qed

lemma example_sig_lengths: "r_length example_sig = 33" "s_length example_sig = 32"
  by (simp_all add: r_length_def s_length_def example_sig_def)

lemma example_sig_r: "right_align32 (bytes_at example_sig 4 33) = replicate 32 0x91"
  by (simp add: right_align32_def bytes_at_numeral bytes_at_Suc example_sig_def replicate_numeral)

lemma example_sig_s: "right_align32 (bytes_at example_sig 39 32) = replicate 32 0x22"
  by (simp add: right_align32_def bytes_at_numeral bytes_at_Suc example_sig_def replicate_numeral)

theorem signature_response_witness:
  "sign_and_respond example_env (bip32_path example_request) ''00'' =
     [Ecdsa_sign (bip32_path example_request) (bsm_digest example_env ''00''),
      SEND_RESPONSE (32 # replicate 32 0x91 @ replicate 32 0x22) SW_OK,
      Ui_post_processing_confirm_withdraw True]
   \<and> length (32 # replicate 32 0x91 @ replicate 32 (0x22 :: byte)) = 65
   \<and> sign_and_respond env_long_component (bip32_path example_request) ''00'' =
     [Ecdsa_sign (bip32_path example_request) (bsm_digest env_long_component ''00''),
      SEND_SW SW_BAD_STATE, Ui_post_processing_confirm_withdraw False]"
proof -
  have a: "crypto_ecdsa_sign_sha256_hash_with_key example_env (bip32_path example_request)
             (bsm_digest example_env ''00'') = (71, example_sig, 1)"
    by (simp add: example_env_def)
  have b: "crypto_ecdsa_sign_sha256_hash_with_key env_long_component (bip32_path example_request)
             (bsm_digest env_long_component ''00'') = (72, (\<lambda>j. if j = 3 then 0x22 else 0), 0)"
    by (simp add: env_long_component_def example_env_def)
  have c: "33 < r_length (\<lambda>j. if j = 3 then 0x22 else 0 :: byte)"
    by (simp add: r_length_def)
  show ?thesis
    using signature_response [OF a] signature_response [OF b] c
    by (simp add: example_sig_lengths example_sig_r example_sig_s CX_ECCINFO_PARITY_ODD_def)
qed

subsection \<open>What reaches the dispatcher when a step fails\<close>

lemma fetch_hash_events:
  "snd (fetch_and_add_chunk_to_hash e ctx j off k) =
     (if fst (call_get_merkle_leaf_element e j) < 0
      then [SEND_SW SW_WRONG_DATA_LENGTH, Ui_post_processing_confirm_withdraw False] else [])"
  by (cases "call_get_merkle_leaf_element e j") (simp add: fetch_and_add_chunk_to_hash_def)

lemma fetch_buffer_events:
  "snd (fetch_and_add_chunk_to_buffer e j off k out out_off) =
     (if fst (call_get_merkle_leaf_element e j) < 0
      then [SEND_SW SW_WRONG_DATA_LENGTH, Ui_post_processing_confirm_withdraw False] else [])"
  by (cases "call_get_merkle_leaf_element e j")
     (simp add: fetch_and_add_chunk_to_buffer_def Let_def)

lemma hash_tx_data_loop_events:
  "snd (hash_tx_data_loop e n i ctx) =
     concat (map (\<lambda>j. if fst (call_get_merkle_leaf_element e j) < 0
                       then [SEND_SW SW_WRONG_DATA_LENGTH, Ui_post_processing_confirm_withdraw False,
                             SEND_SW SW_WRONG_DATA_LENGTH, Ui_post_processing_confirm_withdraw False]
                       else [])
              [i ..< n])"
proof (induction e n i ctx rule: hash_tx_data_loop.induct)
  case (1 e n i ctx)
  show ?case
  proof (cases "i < n")
    case False
    then show ?thesis by (subst hash_tx_data_loop.simps) simp
  next
    case True
    show ?thesis
      using "1.IH" [OF True refl refl]
      by (subst hash_tx_data_loop.simps)
         (simp add: True Let_def fetch_hash_events upt_conv_Cons)
  qed
qed

lemma fields_events_ok:
  assumes "\<And>i. i < 4 \<Longrightarrow> 0 \<le> fst (call_get_merkle_leaf_element e i)"
  shows "snd (snd (fetch_and_abi_encode_tx_fields e dh out (FIELD_SIZE * 11))) = []"
proof -
  have "\<not> fst (call_get_merkle_leaf_element e 0) < 0" "\<not> fst (call_get_merkle_leaf_element e 1) < 0"
    "\<not> fst (call_get_merkle_leaf_element e 2) < 0" "\<not> fst (call_get_merkle_leaf_element e 3) < 0"
    "\<not> fst (call_get_merkle_leaf_element e (Suc 0)) < 0"
    using assms [of 0] assms [of 1] assms [of 2] assms [of 3] by simp_all
  then show ?thesis
    by (simp add: fetch_and_abi_encode_tx_fields_def Let_def fetch_buffer_events)
qed

lemma compute_tx_hash_events:
  "snd (compute_tx_hash e n out) =
     snd (fetch_and_hash_tx_data e n [])
     @ snd (snd (fetch_and_abi_encode_tx_fields e (fst (fetch_and_hash_tx_data e n []))
                   (stack_abi_encoded_tx_fields e) (FIELD_SIZE * 11)))
     @ snd (compute_domain_separator_hash e)"
proof -
  obtain ok fields ev where f:
    "fetch_and_abi_encode_tx_fields e (fst (fetch_and_hash_tx_data e n []))
       (stack_abi_encoded_tx_fields e) (FIELD_SIZE * 11) = (ok, fields, ev)"
    by (cases "fetch_and_abi_encode_tx_fields e (fst (fetch_and_hash_tx_data e n []))
       (stack_abi_encoded_tx_fields e) (FIELD_SIZE * 11)") auto
  have ok: "ok"
    using fields_always_ok [of e "fst (fetch_and_hash_tx_data e n [])" "stack_abi_encoded_tx_fields e"] f
    by simp
  show ?thesis
    by (simp add: compute_tx_hash_def Let_def f ok)
qed

lemma compute_tx_hash_events_ok:
  assumes "\<And>i. 0 \<le> fst (call_get_merkle_leaf_element e i)"
  shows "snd (compute_tx_hash e n out) = []"
proof -
  have nl: "\<not> fst (call_get_merkle_leaf_element e i) < 0" for i
    using assms [of i] by simp
  show ?thesis
    by (simp add: compute_tx_hash_events fetch_and_hash_tx_data_def Let_def fetch_hash_events
        hash_tx_data_loop_events fields_events_ok assms compute_domain_separator_hash_def nl)
qed

lemma tx_hash_bytes:
  "bytes_at (fst (compute_tx_hash e n out)) 0 KECCAK_256_HASH_SIZE =
     digest_bytes (keccak256 e
        ([0x19, 0x01] @ fst (compute_domain_separator_hash e)
         @ digest_bytes (keccak256 e
             (bytes_at (fst (snd (fetch_and_abi_encode_tx_fields e
                  (fst (fetch_and_hash_tx_data e n [])) (stack_abi_encoded_tx_fields e)
                  (FIELD_SIZE * 11)))) 0 (FIELD_SIZE * 11)))))"
proof -
  have "bytes_at (memcpy out 0 (digest_bytes w)) 0 32 = digest_bytes w" for w
    using bytes_at_memcpy_same [of out 0 "digest_bytes w"] by simp
  then show ?thesis
    by (simp add: compute_tx_hash_eq KECCAK_256_HASH_SIZE_def)
qed

text \<open>With the stand-in digest the final hash of every example is the length 66.\<close>

lemma tx_hash_length_hash:
  "keccak256 e = length_hash \<Longrightarrow>
   bytes_at (fst (compute_tx_hash e n out)) 0 KECCAK_256_HASH_SIZE = digest_bytes 66"
  by (simp add: tx_hash_bytes length_hash_def)

lemma example_amount: "read_u64_be (example_chunk 5) 56 = 1000000000000000000"
  by (simp add: read_u64_be_def bytes_at_numeral bytes_at_Suc example_chunk_def)

lemma example_script_len: "script_len_arg (example_chunk 10) = 22"
  by (simp add: script_len_arg_def len_redeemer_output_script_def read_u16_be_def
      example_chunk_def)

lemma display_examples:
  assumes "e = example_env \<or> e = env_signer_fails \<or> e = env_chunk_7_fails"
  shows "display_data_content_and_confirm e p =
     (True, [Get_script_type 22, Get_script_address 22,
             Ui_validate_withdraw_data_and_confirm ''stBTC 1'' ''bc1qexample''])"
  using assms unfolding display_data_content_and_confirm_def Let_def
  by (elim disjE)
     (simp_all add: example_env_def env_signer_fails_def env_chunk_7_fails_def withdraw_constants
        example_amount format_one one_displayed example_script_len check_address_def)

lemma encode_result_zero: "encode_result (\<lambda>_. 0) (- 1) = 32 # replicate 64 0"
proof -
  have "encode_result (\<lambda>_. 0) (- 1) =
     (27 + 4 + (if (- 1 :: 32 word) AND CX_ECCINFO_PARITY_ODD \<noteq> 0 then 1 else 0))
     # right_align32 (bytes_at (\<lambda>_. 0) 4 (r_length (\<lambda>_. 0)))
     @ right_align32 (bytes_at (\<lambda>_. 0) (4 + r_length (\<lambda>_. 0) + 2) (s_length (\<lambda>_. 0)))"
    by (rule encode_result_eq) (simp_all add: r_length_def s_length_def)
  then show ?thesis
    by (simp add: r_length_def s_length_def right_align32_def CX_ECCINFO_PARITY_ODD_def
        replicate_add [symmetric])
qed

lemma encode_result_example:
  "encode_result example_sig 1 = 32 # replicate 32 0x91 @ replicate 32 0x22"
proof -
  have "encode_result example_sig 1 =
     (27 + 4 + (if (1 :: 32 word) AND CX_ECCINFO_PARITY_ODD \<noteq> 0 then 1 else 0))
     # right_align32 (bytes_at example_sig 4 (r_length example_sig))
     @ right_align32 (bytes_at example_sig (4 + r_length example_sig + 2) (s_length example_sig))"
    by (rule encode_result_eq) (simp_all add: example_sig_lengths)
  then show ?thesis
    by (simp add: example_sig_lengths example_sig_r example_sig_s CX_ECCINFO_PARITY_ODD_def)
qed

text \<open>
  Claim C1, at the example request when the signer fails. \<open>sign_tx_hash\<close> reports
  BadState and returns \<open>-1\<close>; the handler does not look at the returned word as a
  failure, reads the two lengths in the signature buffer (zero here), and sends a 65-byte
  response with status Ok after the BadState status.
\<close>

theorem signer_failure_still_answers_ok:
  "handler_withdraw env_signer_fails (Some example_request) =
     [Get_script_type 22, Get_script_address 22,
      Ui_validate_withdraw_data_and_confirm ''stBTC 1'' ''bc1qexample'',
      Ecdsa_sign (bip32_path example_request)
        (bsm_digest env_signer_fails (lowercase_hex (digest_bytes 66))),
      SEND_SW SW_BAD_STATE, Ui_post_processing_confirm_withdraw False,
      SEND_RESPONSE (32 # replicate 64 0) SW_OK, Ui_post_processing_confirm_withdraw True]"
proof -
  have leaf: "0 \<le> fst (call_get_merkle_leaf_element env_signer_fails i)" for i
    by (simp add: env_signer_fails_def example_env_def)
  have ev: "snd (compute_tx_hash env_signer_fails n (stack_tx_hash env_signer_fails)) = []" for n
    by (rule compute_tx_hash_events_ok) (rule leaf)
  have hash: "bytes_at (fst (compute_tx_hash env_signer_fails n (stack_tx_hash env_signer_fails)))
      0 KECCAK_256_HASH_SIZE = digest_bytes 66" for n
    by (rule tx_hash_length_hash) (simp add: env_signer_fails_def example_env_def)
  have sign: "sign_and_respond env_signer_fails p s =
      [Ecdsa_sign p (bsm_digest env_signer_fails s),
       SEND_SW SW_BAD_STATE, Ui_post_processing_confirm_withdraw False,
       SEND_RESPONSE (32 # replicate 64 0) SW_OK, Ui_post_processing_confirm_withdraw True]" for p s
    by (simp add: sign_and_respond_def sign_tx_hash_def env_signer_fails_def example_env_def
        r_length_def s_length_def encode_result_zero)
  have fh: "format_hex env_signer_fails = (\<lambda>bs. (True, lowercase_hex bs))"
    by (simp add: env_signer_fails_def example_env_def)
  have cfg: "\<not> HAVE_AUTOAPPROVE_FOR_PERF_TESTS env_signer_fails"
    "\<not> MAX_BIP32_PATH_STEPS env_signer_fails < unat (bip32_path_len example_request)"
    by (simp_all add: env_signer_fails_def example_env_def example_request_def)
  have hs: "hash_and_sign env_signer_fails example_request =
      [Ecdsa_sign (bip32_path example_request)
         (bsm_digest env_signer_fails (lowercase_hex (digest_bytes 66))),
       SEND_SW SW_BAD_STATE, Ui_post_processing_confirm_withdraw False,
       SEND_RESPONSE (32 # replicate 64 0) SW_OK, Ui_post_processing_confirm_withdraw True]"
    using ev [of "size_t_of_u64 (n_chunks example_request)"]
      hash [of "size_t_of_u64 (n_chunks example_request)"]
    by (cases "compute_tx_hash env_signer_fails (size_t_of_u64 (n_chunks example_request))
                 (stack_tx_hash env_signer_fails)")
       (simp add: hash_and_sign_def sign fh)
  show ?thesis
    by (simp add: handler_withdraw_def display_examples hs cfg)
qed

text \<open>
  Claim C2, at the example request when the retrieval of chunk 7 fails. Chunk 7 is asked
  for three times in the hashing pass (its two halves for the payload hash, its first half
  for the domain separator); each time WrongDataLength is reported and the helper returns
  without a result that its caller could test. The hash is finished without the missing
  bytes, the signer is invoked and a signature is sent with status Ok.
\<close>

theorem chunk_failure_still_signs:
  "handler_withdraw env_chunk_7_fails (Some example_request) =
     [Get_script_type 22, Get_script_address 22,
      Ui_validate_withdraw_data_and_confirm ''stBTC 1'' ''bc1qexample'',
      SEND_SW SW_WRONG_DATA_LENGTH, Ui_post_processing_confirm_withdraw False,
      SEND_SW SW_WRONG_DATA_LENGTH, Ui_post_processing_confirm_withdraw False,
      SEND_SW SW_WRONG_DATA_LENGTH, Ui_post_processing_confirm_withdraw False,
      Ecdsa_sign (bip32_path example_request)
        (bsm_digest env_chunk_7_fails (lowercase_hex (digest_bytes 66))),
      SEND_RESPONSE (32 # replicate 32 0x91 @ replicate 32 0x22) SW_OK,
      Ui_post_processing_confirm_withdraw True]"
proof -
  have leaf: "fst (call_get_merkle_leaf_element env_chunk_7_fails i) < 0 \<longleftrightarrow> i = 7" for i
    by (simp add: env_chunk_7_fails_def example_env_def)
  have n: "size_t_of_u64 (n_chunks example_request) = 11"
    by (simp add: size_t_of_u64_def example_request_def)
  have fields: "snd (snd (fetch_and_abi_encode_tx_fields env_chunk_7_fails dh out (FIELD_SIZE * 11)))
      = []" for dh out
    by (rule fields_events_ok) (simp add: env_chunk_7_fails_def example_env_def)
  have ev: "snd (compute_tx_hash env_chunk_7_fails 11 (stack_tx_hash env_chunk_7_fails)) =
      [SEND_SW SW_WRONG_DATA_LENGTH, Ui_post_processing_confirm_withdraw False,
       SEND_SW SW_WRONG_DATA_LENGTH, Ui_post_processing_confirm_withdraw False,
       SEND_SW SW_WRONG_DATA_LENGTH, Ui_post_processing_confirm_withdraw False]"
    by (simp add: compute_tx_hash_events fetch_and_hash_tx_data_def Let_def fetch_hash_events
        hash_tx_data_loop_events fields compute_domain_separator_hash_def leaf)
  have hash: "bytes_at (fst (compute_tx_hash env_chunk_7_fails 11 (stack_tx_hash env_chunk_7_fails)))
      0 KECCAK_256_HASH_SIZE = digest_bytes 66"
    by (rule tx_hash_length_hash) (simp add: env_chunk_7_fails_def example_env_def)
  have signer: "crypto_ecdsa_sign_sha256_hash_with_key env_chunk_7_fails = (\<lambda>p d. (71, example_sig, 1))"
    by (simp add: env_chunk_7_fails_def example_env_def)
  have sign: "sign_and_respond env_chunk_7_fails p s =
      [Ecdsa_sign p (bsm_digest env_chunk_7_fails s),
       SEND_RESPONSE (32 # replicate 32 0x91 @ replicate 32 0x22) SW_OK,
       Ui_post_processing_confirm_withdraw True]" for p s
    by (simp add: sign_and_respond_def sign_tx_hash_def signer example_sig_lengths
        encode_result_example)
  have fh: "format_hex env_chunk_7_fails = (\<lambda>bs. (True, lowercase_hex bs))"
    by (simp add: env_chunk_7_fails_def example_env_def)
  have cfg: "\<not> HAVE_AUTOAPPROVE_FOR_PERF_TESTS env_chunk_7_fails"
    "\<not> MAX_BIP32_PATH_STEPS env_chunk_7_fails < unat (bip32_path_len example_request)"
    by (simp_all add: env_chunk_7_fails_def example_env_def example_request_def)
  have hs: "hash_and_sign env_chunk_7_fails example_request =
      [SEND_SW SW_WRONG_DATA_LENGTH, Ui_post_processing_confirm_withdraw False,
       SEND_SW SW_WRONG_DATA_LENGTH, Ui_post_processing_confirm_withdraw False,
       SEND_SW SW_WRONG_DATA_LENGTH, Ui_post_processing_confirm_withdraw False,
       Ecdsa_sign (bip32_path example_request)
         (bsm_digest env_chunk_7_fails (lowercase_hex (digest_bytes 66))),
       SEND_RESPONSE (32 # replicate 32 0x91 @ replicate 32 0x22) SW_OK,
       Ui_post_processing_confirm_withdraw True]"
    using ev hash
    by (cases "compute_tx_hash env_chunk_7_fails 11 (stack_tx_hash env_chunk_7_fails)")
       (simp add: hash_and_sign_def sign fh n)
  show ?thesis
    by (simp add: handler_withdraw_def display_examples hs cfg)
qed

end
